theory Spec2Isabelle
  imports Main "HOL-Library.Word" "HOL-Library.Signed_Division"
begin

section \<open>Sample profile support: the data of tree-sample-profile.c\<close>

text \<open>
  The embedding follows \<^verbatim>\<open>gcc/tree-sample-profile.c\<close>. The structs come from the header
  \<^verbatim>\<open>tree-sample-profile.h\<close>; their fields are the ones the source file reads and writes.
  Line numbers are \<open>int\<close>, a frequency is a 64-bit word (\<^verbatim>\<open>unsigned long long\<close>), a
  sampled-instruction count is a 32-bit word (\<^verbatim>\<open>unsigned int\<close>), counts and file offsets
  are natural numbers. A C string is a \<open>string\<close>; \<^verbatim>\<open>strcmp\<close> is equality of strings.
\<close>

definition FB_INLINE_MAX_STACK :: nat where
  "FB_INLINE_MAX_STACK = 200"

definition MAX_LINES_PER_BASIC_BLOCK :: nat where
  "MAX_LINES_PER_BASIC_BLOCK = 500"

definition MIN_SAMPLE_BB_COUNT :: int where
  "MIN_SAMPLE_BB_COUNT = 5"

type_synonym gcov_type = "64 word"

record expanded_location =
  "file" :: string
  line :: int

text \<open>\<^verbatim>\<open>struct fb_info_freq\<close>: one per-line record as it is read from the file.\<close>

record fb_info_freq =
  line_num :: int
  freq :: "64 word"
  num_instr :: "32 word"

text \<open>
  \<^verbatim>\<open>struct sample_freq_detail\<close> (an element of \<^verbatim>\<open>sp_htab\<close>) and
  \<^verbatim>\<open>struct sample_inline_freq\<close> (an element of \<^verbatim>\<open>sp_inline_htab\<close>) have the fields
  \<^verbatim>\<open>line_num\<close>, \<^verbatim>\<open>freq\<close> and \<^verbatim>\<open>num_instr\<close> in common with the raw record; the records
  below extend one another so that the field names of the source are kept.
\<close>

record sample_freq_detail = fb_info_freq +
  filename :: string
  func_name :: string

record sample_inline_freq = sample_freq_detail +
  depth :: nat
  inline_stack :: "expanded_location list"
  is_first :: bool

subsection \<open>The hash tables\<close>

text \<open>
  A table of libiberty's \<^verbatim>\<open>hashtab.c\<close> is modelled by the list of its elements in the order
  of insertion, searched with the equality function the table was created with. Both hash
  functions of the source hash exactly the fields their equality function compares, so
  equal elements meet in the same bucket chain. The position of an element in the list
  stands for the pointer the table stores: an element is appended and never moved.
\<close>

fun htab_find :: "('a \<Rightarrow> 'a \<Rightarrow> bool) \<Rightarrow> 'a list \<Rightarrow> 'a \<Rightarrow> nat option" where
  "htab_find eq_f [] x = None"
| "htab_find eq_f (e # es) x =
     (if eq_f e x then Some 0 else map_option Suc (htab_find eq_f es x))"

definition sp_info_eq :: "sample_freq_detail \<Rightarrow> sample_freq_detail \<Rightarrow> bool" where
  "sp_info_eq a b =
     (line_num a = line_num b \<and> filename a = filename b \<and> func_name a = func_name b)"

text \<open>The loop \<^verbatim>\<open>while (i < a->depth)\<close> of \<^verbatim>\<open>sp_inline_info_eq\<close>, over the indices it visits;
  \<open>False\<close> is the \<^verbatim>\<open>return 0\<close> inside the loop.\<close>

fun inline_stack_loop ::
  "sample_inline_freq \<Rightarrow> sample_inline_freq \<Rightarrow> nat list \<Rightarrow> bool" where
  "inline_stack_loop a b [] = True"
| "inline_stack_loop a b (i # js) =
     (if line (inline_stack a ! i) \<noteq> line (inline_stack b ! i)
         \<or> file (inline_stack a ! i) \<noteq> file (inline_stack b ! i)
      then False
      else inline_stack_loop a b js)"

definition sp_inline_info_eq :: "sample_inline_freq \<Rightarrow> sample_inline_freq \<Rightarrow> bool" where
  "sp_inline_info_eq a b =
     (if line_num a \<noteq> line_num b then False
      else if depth a \<noteq> depth b then False
      else if \<not> inline_stack_loop a b [0..<depth a] then False
      else filename a = filename b \<and> func_name a = func_name b)"

section \<open>Reading the sample file\<close>

text \<open>
  \<^verbatim>\<open>struct fb_sample_hdr\<close>, \<^verbatim>\<open>struct func_sample_hdr\<close> (used for a function and for an
  inline group alike) and \<^verbatim>\<open>struct fb_info_inline_stack_entry\<close>. The two fields of a
  stack entry are \<^verbatim>\<open>filename_offset\<close> and \<^verbatim>\<open>line_num\<close> in the source; they carry the
  prefix \<open>entry_\<close> here, the plain names being fields of the records above.
\<close>

record fb_sample_hdr =
  fb_str_table_offset :: nat
  fb_str_table_size :: nat
  fb_func_hdr_offset :: nat
  fb_func_hdr_num :: nat
  fb_func_hdr_ent_size :: nat
  fb_profile_offset :: nat

record func_sample_hdr =
  filename_offset :: nat
  func_name_index :: nat
  func_num_freq_entries :: nat
  func_profile_offset :: nat
  func_freq_offset :: nat
  func_num_inline_entries :: nat
  func_inline_hdr_offset :: nat
  inline_depth :: int
  inline_stack_offset :: nat
  total_samples :: "64 word"

record fb_info_inline_stack_entry =
  entry_filename_offset :: nat
  entry_line_num :: int

record profile =
  fb_hdr :: fb_sample_hdr
  str_table :: string

text \<open>
  The input file, by what \<^verbatim>\<open>fseek\<close> and \<^verbatim>\<open>fread\<close> deliver. \<open>fread_fb_hdr\<close> is the read
  of the file header at the start of the file (\<open>None\<close>: a short read); \<open>fseek_ok pos\<close>
  tells whether a seek to \<open>pos\<close> succeeds; \<open>bytes_at pos\<close> are the bytes from \<open>pos\<close> to
  the end of the file; \<open>fread_func_hdr pos size\<close> is the header that a read of \<open>size\<close>
  bytes at \<open>pos\<close> leaves in its variable (\<open>None\<close>: a short read); \<open>stack_entries_at pos\<close>
  and \<open>samples_at pos\<close> are the complete stack entries and per-line records that
  sequential reads starting at \<open>pos\<close> deliver before a read comes back short. Offsets are
  added without wrap-around, and \<^verbatim>\<open>xmalloc\<close> and \<^verbatim>\<open>xcalloc\<close> always deliver memory.
\<close>

record sample_file =
  fread_fb_hdr :: "fb_sample_hdr option"
  fseek_ok :: "nat \<Rightarrow> bool"
  bytes_at :: "nat \<Rightarrow> string"
  fread_func_hdr :: "nat \<Rightarrow> nat \<Rightarrow> func_sample_hdr option"
  stack_entries_at :: "nat \<Rightarrow> fb_info_inline_stack_entry list"
  samples_at :: "nat \<Rightarrow> fb_info_freq list"

text \<open>The messages of \<^verbatim>\<open>error\<close> and \<^verbatim>\<open>inform\<close>, in the order they are issued: an error
  with its text (without the file name), and one constructor for each \<^verbatim>\<open>inform\<close>.\<close>

datatype diagnostic =
    Error_report string
  | Duplicate_entry string int string
  | Duplicate_callstack
  | Duplicate_inline_entry string int
  | Both_profiles_requested
  | No_available_data
  | Samples_in_file nat

text \<open>
  The file-scope variables the reader writes. \<^verbatim>\<open>inline_sample_buf\<close> is the buffer of the
  inline group read last, as in the source; the buffers of the flat records only hold
  what the table points to and are not kept apart from it.
\<close>

record sp_state =
  sp_htab :: "sample_freq_detail list"
  sp_inline_htab :: "sample_inline_freq list"
  inline_sample_buf :: "sample_inline_freq list"
  sp_max_count :: gcov_type
  diagnostics :: "diagnostic list"

text \<open>
  A failing \<^verbatim>\<open>gcc_assert\<close> stops the compiler; a store beyond the end of a fixed-size array
  is the other way a run leaves the defined behaviour of the program.
\<close>

datatype abort = Assert_failure | Out_of_bounds_write

text \<open>How a loop body or a loop ends: the compiler stops, the enclosing function
  executes \<^verbatim>\<open>return\<close>, or control reaches the end.\<close>

datatype 'a outcome = Aborted abort | Returned 'a | Completed 'a

text \<open>
  \<^verbatim>\<open>fread (hdr, 1, func_hdr_size, infile)\<close> at \<open>pos\<close>, where \<^verbatim>\<open>hdr\<close> points to a variable of
  type \<^verbatim>\<open>struct func_sample_hdr\<close>. The number of bytes asked for is the entry size the
  file announces; the variable has the size of the structure, which is declared in
  \<^verbatim>\<open>tree-sample-profile.h\<close>: it is the parameter \<open>sizeof_hdr\<close> of this function and of
  every function that reads a header. A complete read stores \<open>func_hdr_size\<close> bytes, a
  short one the bytes the file still has from \<open>pos\<close>; a read that stores more than
  \<open>sizeof_hdr\<close> bytes writes beyond the variable.
\<close>

definition fread_hdr ::
  "nat \<Rightarrow> sample_file \<Rightarrow> nat \<Rightarrow> nat \<Rightarrow> abort + func_sample_hdr option" where
  "fread_hdr sizeof_hdr infile pos func_hdr_size =
     (case fread_func_hdr infile pos func_hdr_size of
        Some hdr \<Rightarrow>
          if sizeof_hdr < func_hdr_size then Inl Out_of_bounds_write else Inr (Some hdr)
      | None \<Rightarrow>
          if sizeof_hdr < min func_hdr_size (length (bytes_at infile pos))
          then Inl Out_of_bounds_write else Inr None)"

text \<open>\<^verbatim>\<open>&(prog_unit->str_table[off])\<close> read as a NUL-terminated string. (For an offset
  beyond the table, where the source reads past its buffer, this is the empty string.)\<close>

definition c_string :: "string \<Rightarrow> nat \<Rightarrow> string" where
  "c_string tbl off = takeWhile (\<lambda>c. c \<noteq> CHR 0x00) (drop off tbl)"

definition report :: "diagnostic \<Rightarrow> sp_state \<Rightarrow> sp_state" where
  "report d st = st\<lparr>diagnostics := diagnostics st @ [d]\<rparr>"

text \<open>\<^verbatim>\<open>if (sample.freq > sp_max_count) sp_max_count = sample.freq;\<close> The comparison of an
  \<^verbatim>\<open>unsigned long long\<close> with a \<^verbatim>\<open>gcov_type\<close> is unsigned.\<close>

definition update_max_count :: "64 word \<Rightarrow> sp_state \<Rightarrow> sp_state" where
  "update_max_count f st =
     (if f > sp_max_count st then st\<lparr>sp_max_count := f\<rparr> else st)"

subsection \<open>The per-line records of a function\<close>

definition flat_sample :: "profile \<Rightarrow> func_sample_hdr \<Rightarrow> fb_info_freq \<Rightarrow> sample_freq_detail" where
  "flat_sample prog_unit func_hdr sample =
     \<lparr>line_num = line_num sample, freq = freq sample, num_instr = num_instr sample,
      filename = c_string (str_table prog_unit) (filename_offset func_hdr),
      func_name = c_string (str_table prog_unit) (func_name_index func_hdr)\<rparr>"

text \<open>
  The body of the loop \<^verbatim>\<open>for (j = 0; j < num_lines; ++j)\<close> of \<^verbatim>\<open>sp_reader\<close>, once the
  record has been read. \<^verbatim>\<open>htab_find_slot\<close> calls the table's hash function on the element,
  and \<^verbatim>\<open>sp_info_hash\<close> asserts \<^verbatim>\<open>sp->line_num > 0\<close>.
\<close>

definition insert_flat_sample ::
  "sample_freq_detail \<Rightarrow> nat \<Rightarrow> sp_state \<Rightarrow> abort + (nat \<times> sp_state)" where
  "insert_flat_sample r num_samples st =
     (let st1 = update_max_count (freq r) st in
      if \<not> 0 < line_num r then Inl Assert_failure
      else case htab_find sp_info_eq (sp_htab st1) r of
        Some slot \<Rightarrow>
          Inr (num_samples, report (Duplicate_entry (filename r) (line_num r) (func_name r)) st1)
      | None \<Rightarrow> Inr (num_samples + 1, st1\<lparr>sp_htab := sp_htab st1 @ [r]\<rparr>))"

fun read_lines ::
  "profile \<Rightarrow> func_sample_hdr \<Rightarrow> fb_info_freq list \<Rightarrow> nat list \<Rightarrow> nat \<Rightarrow> sp_state
     \<Rightarrow> (nat \<times> sp_state) outcome" where
  "read_lines prog_unit func_hdr samples [] num_samples st = Completed (num_samples, st)"
| "read_lines prog_unit func_hdr samples (j # js) num_samples st =
     (if \<not> j < length samples then Returned (0, st)
      else case insert_flat_sample (flat_sample prog_unit func_hdr (samples ! j)) num_samples st of
        Inl a \<Rightarrow> Aborted a
      | Inr (num_samples', st') \<Rightarrow> read_lines prog_unit func_hdr samples js num_samples' st')"

subsection \<open>The inline groups of a function\<close>

definition zero_location :: expanded_location where
  "zero_location = \<lparr>file = [], line = 0\<rparr>"

definition zero_inline_freq :: sample_inline_freq where
  "zero_inline_freq =
     \<lparr>line_num = 0, freq = 0, num_instr = 0, filename = [], func_name = [],
      depth = 0, inline_stack = [], is_first = False\<rparr>"

text \<open>The loop \<^verbatim>\<open>while (i < inline_depth)\<close> that fills \<^verbatim>\<open>stack_buf\<close> from the entries read;
  \<open>d\<close> is \<^verbatim>\<open>inline_depth\<close>.\<close>

fun set_up_stack_buffer ::
  "string \<Rightarrow> fb_info_inline_stack_entry list \<Rightarrow> nat \<Rightarrow> nat list
     \<Rightarrow> expanded_location list \<Rightarrow> expanded_location list" where
  "set_up_stack_buffer tbl stack_entry d [] stack_buf = stack_buf"
| "set_up_stack_buffer tbl stack_entry d (i # js) stack_buf =
     set_up_stack_buffer tbl stack_entry d js
       (stack_buf[d - i - 1 :=
          \<lparr>file = c_string tbl (entry_filename_offset (stack_entry ! i)),
           line = entry_line_num (stack_entry ! i)\<rparr>])"

definition callsite_total ::
  "profile \<Rightarrow> func_sample_hdr \<Rightarrow> expanded_location list \<Rightarrow> sample_inline_freq" where
  "callsite_total prog_unit inline_func_hdr stack_buf =
     zero_inline_freq
       \<lparr>func_name := c_string (str_table prog_unit) (func_name_index inline_func_hdr),
        depth := nat (inline_depth inline_func_hdr),
        inline_stack := stack_buf,
        filename := c_string (str_table prog_unit) (filename_offset inline_func_hdr),
        line_num := 0,
        freq := total_samples inline_func_hdr,
        is_first := False\<rparr>"

definition inline_sample ::
  "profile \<Rightarrow> func_sample_hdr \<Rightarrow> expanded_location list \<Rightarrow> nat \<Rightarrow> fb_info_freq
     \<Rightarrow> sample_inline_freq" where
  "inline_sample prog_unit inline_func_hdr stack_buf j sample =
     zero_inline_freq
       \<lparr>func_name := c_string (str_table prog_unit) (func_name_index inline_func_hdr),
        depth := nat (inline_depth inline_func_hdr),
        inline_stack := stack_buf,
        filename := c_string (str_table prog_unit) (filename_offset inline_func_hdr),
        line_num := line_num sample,
        freq := freq sample,
        num_instr := num_instr sample,
        is_first := (j = 0)\<rparr>"

text \<open>One record of an inline group: stored in the buffer at \<open>j\<close>, counted for the
  maximum, then looked up in \<^verbatim>\<open>sp_inline_htab\<close> and inserted if its slot is empty.\<close>

definition insert_inline_sample ::
  "sample_inline_freq \<Rightarrow> nat \<Rightarrow> nat \<Rightarrow> sp_state \<Rightarrow> nat \<times> sp_state" where
  "insert_inline_sample r j curr_num_samples st =
     (let st1 = update_max_count (freq r)
                  (st\<lparr>inline_sample_buf := (inline_sample_buf st)[j := r]\<rparr>) in
      case htab_find sp_inline_info_eq (sp_inline_htab st1) r of
        Some slot \<Rightarrow>
          (curr_num_samples, report (Duplicate_inline_entry (filename r) (line_num r)) st1)
      | None \<Rightarrow> (curr_num_samples + 1, st1\<lparr>sp_inline_htab := sp_inline_htab st1 @ [r]\<rparr>))"

fun read_inline_lines ::
  "profile \<Rightarrow> func_sample_hdr \<Rightarrow> expanded_location list \<Rightarrow> fb_info_freq list \<Rightarrow> nat list
     \<Rightarrow> nat \<Rightarrow> sp_state \<Rightarrow> (nat \<times> sp_state) outcome" where
  "read_inline_lines prog_unit hdr stack_buf samples [] curr_num_samples st =
     Completed (curr_num_samples, st)"
| "read_inline_lines prog_unit hdr stack_buf samples (j # js) curr_num_samples st =
     (if \<not> j < length samples
      then Returned (curr_num_samples,
             report (Error_report ''read_inline_function(): fread profile_data error.'') st)
      else case insert_inline_sample (inline_sample prog_unit hdr stack_buf j (samples ! j))
                  j curr_num_samples st of
        (curr_num_samples', st') \<Rightarrow>
          read_inline_lines prog_unit hdr stack_buf samples js curr_num_samples' st')"

text \<open>The synthetic record of the call site is stored at index \<open>num_lines\<close> of a fresh
  zeroed buffer and inserted before the per-line records are read.\<close>

definition insert_callsite_total ::
  "sample_inline_freq \<Rightarrow> nat \<Rightarrow> sp_state \<Rightarrow> sp_state" where
  "insert_callsite_total r num_lines st =
     (let st1 = st\<lparr>inline_sample_buf := (replicate (num_lines + 1) zero_inline_freq)[num_lines := r]\<rparr> in
      case htab_find sp_inline_info_eq (sp_inline_htab st1) r of
        Some slot \<Rightarrow> report Duplicate_callstack st1
      | None \<Rightarrow> st1\<lparr>sp_inline_htab := sp_inline_htab st1 @ [r]\<rparr>)"

text \<open>The body of the loop \<^verbatim>\<open>for (k = 0; k < num_inlines; k++)\<close> of
  \<^verbatim>\<open>read_inline_function\<close>. \<open>Completed\<close> also stands for its \<^verbatim>\<open>continue\<close>.\<close>

definition inline_hdr_offset :: "profile \<Rightarrow> func_sample_hdr \<Rightarrow> nat \<Rightarrow> nat" where
  "inline_hdr_offset prog_unit func_hdr k =
     fb_func_hdr_offset (fb_hdr prog_unit) + func_inline_hdr_offset func_hdr
       + fb_func_hdr_num (fb_hdr prog_unit) * fb_func_hdr_ent_size (fb_hdr prog_unit)
       + k * fb_func_hdr_ent_size (fb_hdr prog_unit)"

definition read_inline_group ::
  "nat \<Rightarrow> sample_file \<Rightarrow> profile \<Rightarrow> func_sample_hdr \<Rightarrow> nat \<Rightarrow> nat \<Rightarrow> sp_state
     \<Rightarrow> (nat \<times> sp_state) outcome" where
  "read_inline_group sizeof_hdr infile prog_unit func_hdr k curr_num_samples st =
     (let hdr = fb_hdr prog_unit;
          func_hdr_size = fb_func_hdr_ent_size hdr in
      if \<not> fseek_ok infile (inline_hdr_offset prog_unit func_hdr k)
      then Returned (curr_num_samples,
             report (Error_report ''read_inline_function(): fseek inline_func_hdr error.'') st)
      else case fread_hdr sizeof_hdr infile (inline_hdr_offset prog_unit func_hdr k)
                  func_hdr_size of
        Inl a \<Rightarrow> Aborted a
      | Inr None \<Rightarrow> Returned (curr_num_samples,
             report (Error_report ''read_inline_function(): fread inline_func_hdr error.'') st)
      | Inr (Some inline_func_hdr) \<Rightarrow>
         (let num_lines = func_num_freq_entries inline_func_hdr;
              stack_offset = fb_profile_offset hdr + inline_stack_offset inline_func_hdr;
              profile_offset = fb_profile_offset hdr + func_profile_offset inline_func_hdr in
          if num_lines = 0 then Completed (curr_num_samples, st)
          else if \<not> fseek_ok infile stack_offset
          then Returned (curr_num_samples,
                 report (Error_report ''read_inline_function(): fseek profile_data error.'') st)
          else if \<not> inline_depth inline_func_hdr < int FB_INLINE_MAX_STACK
          then Aborted Assert_failure
          else if \<not> inline_depth inline_func_hdr > 0
          then Aborted Assert_failure
          else if length (stack_entries_at infile stack_offset) < nat (inline_depth inline_func_hdr)
          then Returned (curr_num_samples,
                 report (Error_report ''read_inline_function(): fread profile_data error.'') st)
          else
           (let d = nat (inline_depth inline_func_hdr);
                stack_buf = set_up_stack_buffer (str_table prog_unit)
                  (stack_entries_at infile stack_offset) d [0..<d] (replicate d zero_location) in
            if \<not> fseek_ok infile profile_offset
            then Returned (curr_num_samples,
                   report (Error_report ''read_inline_function(): fseek profile_data error.'') st)
            else read_inline_lines prog_unit inline_func_hdr stack_buf
                   (samples_at infile profile_offset) [0..<num_lines] curr_num_samples
                   (insert_callsite_total
                      (callsite_total prog_unit inline_func_hdr stack_buf) num_lines st))))"

fun read_inline_groups ::
  "nat \<Rightarrow> sample_file \<Rightarrow> profile \<Rightarrow> func_sample_hdr \<Rightarrow> nat list \<Rightarrow> nat \<Rightarrow> sp_state
     \<Rightarrow> (nat \<times> sp_state) outcome" where
  "read_inline_groups sizeof_hdr infile prog_unit func_hdr [] curr_num_samples st =
     Completed (curr_num_samples, st)"
| "read_inline_groups sizeof_hdr infile prog_unit func_hdr (k # ks) curr_num_samples st =
     (case read_inline_group sizeof_hdr infile prog_unit func_hdr k curr_num_samples st of
        Aborted a \<Rightarrow> Aborted a
      | Returned res \<Rightarrow> Returned res
      | Completed (curr_num_samples', st') \<Rightarrow>
          read_inline_groups sizeof_hdr infile prog_unit func_hdr ks curr_num_samples' st')"

text \<open>\<^verbatim>\<open>read_inline_function\<close> returns \<^verbatim>\<open>curr_num_samples\<close> on every path, after an
  error as at the end of its loop.\<close>

definition read_inline_function ::
  "nat \<Rightarrow> sample_file \<Rightarrow> profile \<Rightarrow> func_sample_hdr \<Rightarrow> nat \<Rightarrow> sp_state
     \<Rightarrow> abort + (nat \<times> sp_state)" where
  "read_inline_function sizeof_hdr infile prog_unit func_hdr num_samples st =
     (case read_inline_groups sizeof_hdr infile prog_unit func_hdr
             [0..<func_num_inline_entries func_hdr] num_samples st of
        Aborted a \<Rightarrow> Inl a
      | Returned res \<Rightarrow> Inr res
      | Completed res \<Rightarrow> Inr res)"

subsection \<open>The reader\<close>

text \<open>\<^verbatim>\<open>read_file_header\<close>, \<^verbatim>\<open>read_string_table\<close> and \<^verbatim>\<open>read_function_header\<close>; \<open>None\<close>
  is the result \<^verbatim>\<open>-1\<close>. The last reads the entry into the variable \<^verbatim>\<open>func_hdr\<close> of its
  caller, which has \<open>sizeof_hdr\<close> bytes.\<close>

definition read_file_header :: "sample_file \<Rightarrow> fb_sample_hdr option" where
  "read_file_header infile = fread_fb_hdr infile"

definition read_string_table :: "sample_file \<Rightarrow> fb_sample_hdr \<Rightarrow> string option" where
  "read_string_table infile hdr =
     (if \<not> fseek_ok infile (fb_str_table_offset hdr) then None
      else if length (bytes_at infile (fb_str_table_offset hdr)) < fb_str_table_size hdr then None
      else Some (take (fb_str_table_size hdr) (bytes_at infile (fb_str_table_offset hdr))))"

definition read_function_header ::
  "nat \<Rightarrow> sample_file \<Rightarrow> nat \<Rightarrow> profile \<Rightarrow> abort + func_sample_hdr option" where
  "read_function_header sizeof_hdr infile i prog_unit =
     (let func_hdr_size = fb_func_hdr_ent_size (fb_hdr prog_unit);
          offset = i * func_hdr_size in
      if \<not> i \<le> fb_func_hdr_num (fb_hdr prog_unit) then Inl Assert_failure
      else if \<not> fseek_ok infile (fb_func_hdr_offset (fb_hdr prog_unit) + offset) then Inr None
      else fread_hdr sizeof_hdr infile (fb_func_hdr_offset (fb_hdr prog_unit) + offset)
             func_hdr_size)"

text \<open>The body of the loop \<^verbatim>\<open>for (i = 0; i < num_funcs; ++i)\<close> of \<^verbatim>\<open>sp_reader\<close>.\<close>

definition read_function ::
  "nat \<Rightarrow> sample_file \<Rightarrow> profile \<Rightarrow> nat \<Rightarrow> nat \<Rightarrow> sp_state
     \<Rightarrow> (nat \<times> sp_state) outcome" where
  "read_function sizeof_hdr in_file prog_unit i num_samples st =
     (case read_function_header sizeof_hdr in_file i prog_unit of
        Inl a \<Rightarrow> Aborted a
      | Inr None \<Rightarrow> Returned (0, report (Error_report ''Error reading function header.'') st)
      | Inr (Some func_hdr) \<Rightarrow>
         (let num_lines = func_num_freq_entries func_hdr;
              profile_offset = fb_profile_offset (fb_hdr prog_unit) in
          if \<not> fseek_ok in_file
                 (profile_offset + func_profile_offset func_hdr + func_freq_offset func_hdr)
          then Returned (0, st)
          else case read_lines prog_unit func_hdr
                      (samples_at in_file
                         (profile_offset + func_profile_offset func_hdr + func_freq_offset func_hdr))
                      [0..<num_lines] num_samples st of
            Aborted a \<Rightarrow> Aborted a
          | Returned res \<Rightarrow> Returned res
          | Completed (num_samples', st') \<Rightarrow>
              if func_num_inline_entries func_hdr > 0
              then (case read_inline_function sizeof_hdr in_file prog_unit func_hdr
                           num_samples' st' of
                      Inl a \<Rightarrow> Aborted a
                    | Inr res \<Rightarrow> Completed res)
              else Completed (num_samples', st')))"

fun read_functions ::
  "nat \<Rightarrow> sample_file \<Rightarrow> profile \<Rightarrow> nat list \<Rightarrow> nat \<Rightarrow> sp_state
     \<Rightarrow> (nat \<times> sp_state) outcome" where
  "read_functions sizeof_hdr in_file prog_unit [] num_samples st = Completed (num_samples, st)"
| "read_functions sizeof_hdr in_file prog_unit (i # js) num_samples st =
     (case read_function sizeof_hdr in_file prog_unit i num_samples st of
        Aborted a \<Rightarrow> Aborted a
      | Returned res \<Rightarrow> Returned res
      | Completed (num_samples', st') \<Rightarrow>
          read_functions sizeof_hdr in_file prog_unit js num_samples' st')"

text \<open>\<^verbatim>\<open>sp_reader\<close>; \<open>None\<close> for the file is a failing \<^verbatim>\<open>fopen\<close>. The result is the number
  of samples returned and the state of the tables left behind.\<close>

definition sp_reader ::
  "nat \<Rightarrow> sample_file option \<Rightarrow> sp_state \<Rightarrow> abort + (nat \<times> sp_state)" where
  "sp_reader sizeof_hdr in_file_opt st =
     (case in_file_opt of
        None \<Rightarrow> Inr (0, report (Error_report ''Error opening sample profile file.'') st)
      | Some in_file \<Rightarrow>
         (case read_file_header in_file of
            None \<Rightarrow> Inr (0, report (Error_report ''Error reading file header.'') st)
          | Some hdr \<Rightarrow>
             (case read_string_table in_file hdr of
                None \<Rightarrow> Inr (0, report (Error_report ''Error reading string table.'') st)
              | Some tbl \<Rightarrow>
                 (case read_functions sizeof_hdr in_file \<lparr>fb_hdr = hdr, str_table = tbl\<rparr>
                         [0..<fb_func_hdr_num hdr] 0 st of
                    Aborted a \<Rightarrow> Inl a
                  | Returned res \<Rightarrow> Inr res
                  | Completed res \<Rightarrow> Inr res))))"

text \<open>
  \<^verbatim>\<open>init_sample_profile\<close>, on the two flags, the number of samples and the file-scope
  variables of the reader. Both tables are created empty before the file is read.
\<close>

record sp_globals =
  flag_branch_probabilities :: bool
  flag_sample_profile :: bool
  sp_num_samples :: nat
  sp_vars :: sp_state

definition empty_sp_state :: sp_state where
  "empty_sp_state =
     \<lparr>sp_htab = [], sp_inline_htab = [], inline_sample_buf = [], sp_max_count = 0,
      diagnostics = []\<rparr>"

definition init_sample_profile ::
  "nat \<Rightarrow> sample_file option \<Rightarrow> sp_globals \<Rightarrow> abort + sp_globals" where
  "init_sample_profile sizeof_hdr in_file_opt g =
     (if flag_branch_probabilities g
      then Inr (g\<lparr>flag_sample_profile := False,
                   sp_vars := report Both_profiles_requested (sp_vars g)\<rparr>)
      else case sp_reader sizeof_hdr in_file_opt
                  ((sp_vars g)\<lparr>sp_htab := [], sp_inline_htab := []\<rparr>) of
        Inl a \<Rightarrow> Inl a
      | Inr (n, st) \<Rightarrow>
          if n = 0
          then Inr (g\<lparr>sp_num_samples := n, sp_vars := report No_available_data st,
                       flag_sample_profile := False\<rparr>)
          else Inr (g\<lparr>sp_num_samples := n, sp_vars := report (Samples_in_file n) st\<rparr>))"

section \<open>Annotating the control-flow graph\<close>

text \<open>
  What the annotator reads of the compiler's data. A \<open>tree\<close> is a lexical scope as
  \<^verbatim>\<open>sp_get_inline_stack\<close> sees it: the null pointer, a node with \<^verbatim>\<open>TREE_CODE\<close> \<^verbatim>\<open>BLOCK\<close>
  (its \<^verbatim>\<open>BLOCK_SOURCE_LOCATION\<close> and its \<^verbatim>\<open>BLOCK_SUPERCONTEXT\<close>), or a node of another code
  (the function declaration that ends the chain). A statement carries the results of
  \<^verbatim>\<open>get_lineno\<close>, \<^verbatim>\<open>gimple_filename\<close> and \<^verbatim>\<open>gimple_block\<close>.
\<close>

datatype tree = NULL_TREE | BLOCK nat tree | FUNCTION_DECL

record gimple_stmt =
  gimple_lineno :: int
  gimple_filename :: string
  gimple_block :: tree

record basic_block =
  stmts :: "gimple_stmt list"
  count :: gcov_type

record function_context =
  expand_location :: "nat \<Rightarrow> expanded_location"
  current_function_assembler_name :: string

text \<open>C's \<^verbatim>\<open>!\<close> on a location: \<^verbatim>\<open>!BLOCK_SOURCE_LOCATION (block) > 0\<close> is read as
  \<^verbatim>\<open>(!BLOCK_SOURCE_LOCATION (block)) > 0\<close>.\<close>

definition c_not :: "nat \<Rightarrow> nat" where
  "c_not x = (if x = 0 then 1 else 0)"

text \<open>
  The loop of \<^verbatim>\<open>sp_get_inline_stack\<close>, entered at a scope. The caller's array
  \<^verbatim>\<open>stack\<close> has \<^verbatim>\<open>FB_INLINE_MAX_STACK\<close> elements; the list is what the function has stored
  at \<^verbatim>\<open>stack[0]\<close> to \<^verbatim>\<open>stack[i - 1]\<close>, so its length is the counter \<^verbatim>\<open>i\<close>. The function
  makes no test of \<^verbatim>\<open>i\<close>: a store at an index that is not below the size of the array is
  the result \<open>Out_of_bounds_write\<close>.
\<close>

fun inline_stack_walk ::
  "(nat \<Rightarrow> expanded_location) \<Rightarrow> tree \<Rightarrow> nat \<Rightarrow> expanded_location list
     \<Rightarrow> abort + expanded_location list" where
  "inline_stack_walk el (BLOCK loc super) last_loc stack =
     (if c_not loc > 0 \<or> loc = last_loc then inline_stack_walk el super last_loc stack
      else if \<not> length stack < FB_INLINE_MAX_STACK then Inl Out_of_bounds_write
      else inline_stack_walk el super loc (stack @ [el loc]))"
| "inline_stack_walk el NULL_TREE last_loc stack = Inr stack"
| "inline_stack_walk el FUNCTION_DECL last_loc stack = Inr stack"

definition sp_get_inline_stack ::
  "(nat \<Rightarrow> expanded_location) \<Rightarrow> gimple_stmt \<Rightarrow> abort + expanded_location list" where
  "sp_get_inline_stack el stmt =
     (case gimple_block stmt of
        BLOCK loc super \<Rightarrow> inline_stack_walk el super 0 []
      | NULL_TREE \<Rightarrow> Inr []
      | FUNCTION_DECL \<Rightarrow> Inr [])"

text \<open>
  The locals of \<^verbatim>\<open>sp_annotate_bb\<close> that reach the block's count. \<open>lines\<close> and
  \<open>lines_inline\<close> hold the table positions of the elements already counted, their
  lengths being \<^verbatim>\<open>num_lines\<close> and \<^verbatim>\<open>num_inlines\<close>. (\<^verbatim>\<open>num_ir\<close> and \<^verbatim>\<open>bb_max_count\<close> are
  only printed to the dump file.)
\<close>

record bb_acc =
  num_instr_sampled :: "32 word"
  sum_ir_count :: gcov_type
  lines :: "nat list"
  lines_inline :: "nat list"

definition init_bb_acc :: bb_acc where
  "init_bb_acc = \<lparr>num_instr_sampled = 0, sum_ir_count = 0, lines = [], lines_inline = []\<rparr>"

text \<open>\<^verbatim>\<open>for (i = num_lines - 1; i >= 0; i--) if (entry == lines[i]) break;\<close> The result is
  the value of \<^verbatim>\<open>i\<close> after the loop; the third argument is \<^verbatim>\<open>i + 1\<close>.\<close>

fun scan_lines :: "nat list \<Rightarrow> nat \<Rightarrow> nat \<Rightarrow> int" where
  "scan_lines ls entry 0 = - 1"
| "scan_lines ls entry (Suc i) =
     (if entry = ls ! i then int i else scan_lines ls entry i)"

definition zero_freq_detail :: sample_freq_detail where
  "zero_freq_detail =
     \<lparr>line_num = 0, freq = 0, num_instr = 0, filename = [], func_name = []\<rparr>"

definition inline_loc_of ::
  "function_context \<Rightarrow> gimple_stmt \<Rightarrow> expanded_location list \<Rightarrow> sample_inline_freq" where
  "inline_loc_of cx stmt stack =
     zero_inline_freq
       \<lparr>depth := length stack,
        inline_stack := stack,
        func_name := current_function_assembler_name cx,
        filename := gimple_filename stmt,
        line_num := gimple_lineno stmt\<rparr>"

definition ir_loc_of :: "function_context \<Rightarrow> gimple_stmt \<Rightarrow> sample_freq_detail" where
  "ir_loc_of cx stmt =
     zero_freq_detail
       \<lparr>filename := gimple_filename stmt,
        func_name := current_function_assembler_name cx,
        line_num := gimple_lineno stmt\<rparr>"

text \<open>\<^verbatim>\<open>gcov_type / unsigned int\<close>: the divisor is converted to the signed 64-bit type and
  the quotient is truncated towards zero.\<close>

definition gcov_div :: "gcov_type \<Rightarrow> 32 word \<Rightarrow> gcov_type" where
  "gcov_div s n = word_of_int (sint s sdiv uint n)"

text \<open>The body of the loop over the statements of a block.\<close>

definition annotate_stmt ::
  "function_context \<Rightarrow> sp_state \<Rightarrow> gimple_stmt \<Rightarrow> bb_acc \<Rightarrow> abort + bb_acc" where
  "annotate_stmt cx st stmt acc =
     (if gimple_lineno stmt = - 1 then Inr acc
      else case sp_get_inline_stack (expand_location cx) stmt of
        Inl a \<Rightarrow> Inl a
      | Inr stack \<Rightarrow>
          if \<not> length stack < FB_INLINE_MAX_STACK then Inl Assert_failure
          else if length stack > 0 then
            (case htab_find sp_inline_info_eq (sp_inline_htab st) (inline_loc_of cx stmt stack) of
               None \<Rightarrow> Inr acc
             | Some e \<Rightarrow>
                 if scan_lines (lines_inline acc) e (length (lines_inline acc)) \<ge> 0 then Inr acc
                 else if \<not> length (lines_inline acc) < MAX_LINES_PER_BASIC_BLOCK
                 then Inl Assert_failure
                 else Inr (acc\<lparr>lines_inline := lines_inline acc @ [e],
                       sum_ir_count := sum_ir_count acc + freq (sp_inline_htab st ! e),
                       num_instr_sampled :=
                         num_instr_sampled acc + num_instr (sp_inline_htab st ! e)\<rparr>))
          else
            (case htab_find sp_info_eq (sp_htab st) (ir_loc_of cx stmt) of
               None \<Rightarrow> Inr acc
             | Some e \<Rightarrow>
                 if scan_lines (lines acc) e (length (lines acc)) \<ge> 0 then Inr acc
                 else if \<not> length (lines acc) < MAX_LINES_PER_BASIC_BLOCK
                 then Inl Assert_failure
                 else Inr (acc\<lparr>lines := lines acc @ [e],
                       sum_ir_count := sum_ir_count acc + freq (sp_htab st ! e),
                       num_instr_sampled :=
                         num_instr_sampled acc + num_instr (sp_htab st ! e)\<rparr>)))"

fun annotate_stmts ::
  "function_context \<Rightarrow> sp_state \<Rightarrow> gimple_stmt list \<Rightarrow> bb_acc \<Rightarrow> abort + bb_acc" where
  "annotate_stmts cx st [] acc = Inr acc"
| "annotate_stmts cx st (stmt # rest) acc =
     (case annotate_stmt cx st stmt acc of
        Inl a \<Rightarrow> Inl a
      | Inr acc' \<Rightarrow> annotate_stmts cx st rest acc')"

definition sp_annotate_bb ::
  "function_context \<Rightarrow> sp_state \<Rightarrow> basic_block \<Rightarrow> abort + basic_block" where
  "sp_annotate_bb cx st bb =
     (case annotate_stmts cx st (stmts bb) init_bb_acc of
        Inl a \<Rightarrow> Inl a
      | Inr acc \<Rightarrow>
          Inr (bb\<lparr>count :=
            (if num_instr_sampled acc > 0
             then gcov_div (sum_ir_count acc) (num_instr_sampled acc)
             else 0)\<rparr>))"

text \<open>
  The function being compiled, as \<^verbatim>\<open>sp_annotate_cfg\<close> uses it: \<^verbatim>\<open>n_basic_blocks\<close>, the
  blocks \<^verbatim>\<open>FOR_EACH_BB\<close> visits, \<^verbatim>\<open>profile_status\<close> and \<^verbatim>\<open>profile_info\<close>.
\<close>

datatype profile_status_d = PROFILE_ABSENT | PROFILE_GUESSED | PROFILE_READ

record gcov_ctr_summary =
  runs :: nat
  sum_max :: gcov_type

record cfun_state =
  n_basic_blocks :: int
  basic_blocks :: "basic_block list"
  profile_status :: profile_status_d
  profile_info :: "gcov_ctr_summary option"

text \<open>The loop \<^verbatim>\<open>FOR_EACH_BB\<close> that annotates each block and counts in \<^verbatim>\<open>num_bb_annotated\<close>
  those whose count is not zero.\<close>

fun annotate_bbs ::
  "function_context \<Rightarrow> sp_state \<Rightarrow> basic_block list \<Rightarrow> int
     \<Rightarrow> abort + (basic_block list \<times> int)" where
  "annotate_bbs cx st [] num_bb_annotated = Inr ([], num_bb_annotated)"
| "annotate_bbs cx st (bb # rest) num_bb_annotated =
     (case sp_annotate_bb cx st bb of
        Inl a \<Rightarrow> Inl a
      | Inr bb' \<Rightarrow>
         (case annotate_bbs cx st rest
                 (if count bb' \<noteq> 0 then num_bb_annotated + 1 else num_bb_annotated) of
            Inl a \<Rightarrow> Inl a
          | Inr (rest', n) \<Rightarrow> Inr (bb' # rest', n)))"

text \<open>
  \<^verbatim>\<open>sp_annotate_cfg\<close>. \<open>smooth\<close> is \<^verbatim>\<open>sp_smooth_cfg\<close>, whose steps belong to the flow
  correction outside this file.
\<close>

definition sp_annotate_cfg ::
  "(cfun_state \<Rightarrow> cfun_state) \<Rightarrow> function_context \<Rightarrow> sp_state \<Rightarrow> cfun_state
     \<Rightarrow> abort + cfun_state" where
  "sp_annotate_cfg smooth cx st fn =
     (case annotate_bbs cx st (basic_blocks fn) 0 of
        Inl a \<Rightarrow> Inl a
      | Inr (bbs, num_bb_annotated) \<Rightarrow>
          if num_bb_annotated > 1
             \<or> (num_bb_annotated = 1 \<and> n_basic_blocks fn < MIN_SAMPLE_BB_COUNT)
          then Inr ((smooth (fn\<lparr>basic_blocks := bbs\<rparr>))
                 \<lparr>profile_status := PROFILE_READ,
                  profile_info := Some \<lparr>runs = 1, sum_max = sp_max_count st\<rparr>\<rparr>)
          else Inr (fn\<lparr>basic_blocks := map (\<lambda>bb. bb\<lparr>count := 0\<rparr>) bbs\<rparr>))"

section \<open>Notions used in the statements\<close>

text \<open>The result and the state a loop or loop body leaves behind, if the compiler was
  not stopped.\<close>

fun final_state :: "'a outcome \<Rightarrow> 'a option" where
  "final_state (Aborted a) = None"
| "final_state (Returned x) = Some x"
| "final_state (Completed x) = Some x"

text \<open>Both tables of \<open>st'\<close> are those of \<open>st\<close> with elements appended, and every
  element appended to \<^verbatim>\<open>sp_htab\<close> has a positive line.\<close>

definition tables_extend :: "sp_state \<Rightarrow> sp_state \<Rightarrow> bool" where
  "tables_extend st st' \<longleftrightarrow>
     (\<exists>xs. sp_htab st' = sp_htab st @ xs \<and> (\<forall>e\<in>set xs. 0 < line_num e))
     \<and> (\<exists>ys. sp_inline_htab st' = sp_inline_htab st @ ys)"

section \<open>The per-line records of a file\<close>

text \<open>
  The per-line records a file holds for the reader, flat and inline, in the order of the
  file's layout: for each function header its own records and then those of each of its
  inline groups; the total in the header of a group is not among them. The traversal ends
  where a seek or a read fails, and the records of a loop that announces more records than
  the file holds are those the file holds. Each function gives the records together with
  the answer to whether the traversal goes on behind them.
\<close>

definition lines_read :: "fb_info_freq list \<Rightarrow> nat \<Rightarrow> fb_info_freq list \<times> bool" where
  "lines_read samples num_lines = (take num_lines samples, num_lines \<le> length samples)"

definition group_line_records ::
  "sample_file \<Rightarrow> profile \<Rightarrow> func_sample_hdr \<Rightarrow> nat \<Rightarrow> fb_info_freq list \<times> bool" where
  "group_line_records infile pu fh k =
     (if \<not> fseek_ok infile (inline_hdr_offset pu fh k) then ([], False)
      else case fread_func_hdr infile (inline_hdr_offset pu fh k)
                  (fb_func_hdr_ent_size (fb_hdr pu)) of
        None \<Rightarrow> ([], False)
      | Some ih \<Rightarrow>
          if func_num_freq_entries ih = 0 then ([], True)
          else if fseek_ok infile (fb_profile_offset (fb_hdr pu) + inline_stack_offset ih)
               \<and> nat (inline_depth ih)
                   \<le> length (stack_entries_at infile
                                (fb_profile_offset (fb_hdr pu) + inline_stack_offset ih))
               \<and> fseek_ok infile (fb_profile_offset (fb_hdr pu) + func_profile_offset ih)
          then lines_read
                 (samples_at infile (fb_profile_offset (fb_hdr pu) + func_profile_offset ih))
                 (func_num_freq_entries ih)
          else ([], False))"

fun groups_line_records ::
  "sample_file \<Rightarrow> profile \<Rightarrow> func_sample_hdr \<Rightarrow> nat list \<Rightarrow> fb_info_freq list \<times> bool" where
  "groups_line_records infile pu fh [] = ([], True)"
| "groups_line_records infile pu fh (k # ks) =
     (case group_line_records infile pu fh k of
        (rs, goes_on) \<Rightarrow>
          if goes_on
          then (rs @ fst (groups_line_records infile pu fh ks),
                snd (groups_line_records infile pu fh ks))
          else (rs, False))"

definition function_line_records ::
  "sample_file \<Rightarrow> profile \<Rightarrow> nat \<Rightarrow> fb_info_freq list \<times> bool" where
  "function_line_records infile pu i =
     (let pos = fb_func_hdr_offset (fb_hdr pu) + i * fb_func_hdr_ent_size (fb_hdr pu) in
      if \<not> fseek_ok infile pos then ([], False)
      else case fread_func_hdr infile pos (fb_func_hdr_ent_size (fb_hdr pu)) of
        None \<Rightarrow> ([], False)
      | Some fh \<Rightarrow>
         (let off = fb_profile_offset (fb_hdr pu) + func_profile_offset fh + func_freq_offset fh in
          if \<not> fseek_ok infile off then ([], False)
          else case lines_read (samples_at infile off) (func_num_freq_entries fh) of
            (rs, goes_on) \<Rightarrow>
              if goes_on
              then (rs @ fst (groups_line_records infile pu fh
                                [0..<func_num_inline_entries fh]), True)
              else (rs, False)))"

fun functions_line_records :: "sample_file \<Rightarrow> profile \<Rightarrow> nat list \<Rightarrow> fb_info_freq list" where
  "functions_line_records infile pu [] = []"
| "functions_line_records infile pu (i # js) =
     (case function_line_records infile pu i of
        (rs, goes_on) \<Rightarrow> if goes_on then rs @ functions_line_records infile pu js else rs)"

definition file_line_records :: "sample_file option \<Rightarrow> fb_info_freq list" where
  "file_line_records in_file_opt =
     (case in_file_opt of
        None \<Rightarrow> []
      | Some in_file \<Rightarrow>
         (case fread_fb_hdr in_file of
            None \<Rightarrow> []
          | Some hdr \<Rightarrow>
              if fseek_ok in_file (fb_str_table_offset hdr)
                 \<and> fb_str_table_size hdr \<le> length (bytes_at in_file (fb_str_table_offset hdr))
              then functions_line_records in_file
                     \<lparr>fb_hdr = hdr,
                      str_table = take (fb_str_table_size hdr)
                                    (bytes_at in_file (fb_str_table_offset hdr))\<rparr>
                     [0..<fb_func_hdr_num hdr]
              else []))"

text \<open>The maximum after part of a run: \<open>sp_max_count\<close> is the greatest of its old value
  \<open>m\<close> and the frequencies of the given records, and the run has ended early exactly if
  the traversal of the file has.\<close>

definition max_after ::
  "(nat \<times> sp_state) outcome \<Rightarrow> fb_info_freq list \<times> bool \<Rightarrow> 64 word \<Rightarrow> bool" where
  "max_after out rs m \<longleftrightarrow>
     (case out of
        Aborted a \<Rightarrow> True
      | Returned res \<Rightarrow> \<not> snd rs \<and> sp_max_count (snd res) = fold max (map freq (fst rs)) m
      | Completed res \<Rightarrow> snd rs \<and> sp_max_count (snd res) = fold max (map freq (fst rs)) m)"

section \<open>The stack buffer of a group and concrete inputs\<close>

text \<open>The value of the local \<^verbatim>\<open>stack_buf\<close> of \<^verbatim>\<open>read_inline_function\<close> for the group whose
  header is \<open>ih\<close>, once the loop that sets it up has run.\<close>

definition group_stack_buf ::
  "sample_file \<Rightarrow> profile \<Rightarrow> func_sample_hdr \<Rightarrow> expanded_location list" where
  "group_stack_buf infile pu ih =
     set_up_stack_buffer (str_table pu)
       (stack_entries_at infile (fb_profile_offset (fb_hdr pu) + inline_stack_offset ih))
       (nat (inline_depth ih)) [0..<nat (inline_depth ih)]
       (replicate (nat (inline_depth ih)) zero_location)"

text \<open>
  A small sample file: a string table with the names \<open>a.c\<close>, \<open>foo\<close> and \<open>b.h\<close>, one
  function header at offset 52, one inline group header behind it at offset 116, the
  function's records at offset 200, the group's stack at 250 and its records at 300.
  The headers of the file have 64 bytes, and so has the variable that receives them.
\<close>

definition ex_sizeof_hdr :: nat where
  "ex_sizeof_hdr = 64"

definition ex_str_table :: string where
  "ex_str_table = ''a.c'' @ [CHR 0x00] @ ''foo'' @ [CHR 0x00] @ ''b.h'' @ [CHR 0x00]"

definition ex_fb_hdr :: fb_sample_hdr where
  "ex_fb_hdr = \<lparr>fb_str_table_offset = 40, fb_str_table_size = 12, fb_func_hdr_offset = 52,
     fb_func_hdr_num = 1, fb_func_hdr_ent_size = 64, fb_profile_offset = 200\<rparr>"

definition ex_func_hdr :: "nat \<Rightarrow> nat \<Rightarrow> func_sample_hdr" where
  "ex_func_hdr n_lines n_inlines =
     \<lparr>filename_offset = 0, func_name_index = 4, func_num_freq_entries = n_lines,
      func_profile_offset = 0, func_freq_offset = 0, func_num_inline_entries = n_inlines,
      func_inline_hdr_offset = 0, inline_depth = 0, inline_stack_offset = 0,
      total_samples = 0\<rparr>"

definition ex_inline_hdr :: "nat \<Rightarrow> int \<Rightarrow> 64 word \<Rightarrow> func_sample_hdr" where
  "ex_inline_hdr n_lines d tot =
     \<lparr>filename_offset = 8, func_name_index = 4, func_num_freq_entries = n_lines,
      func_profile_offset = 100, func_freq_offset = 0, func_num_inline_entries = 0,
      func_inline_hdr_offset = 0, inline_depth = d, inline_stack_offset = 50,
      total_samples = tot\<rparr>"

definition ex_file ::
  "func_sample_hdr \<Rightarrow> fb_info_freq list \<Rightarrow> func_sample_hdr option
     \<Rightarrow> fb_info_inline_stack_entry list \<Rightarrow> fb_info_freq list \<Rightarrow> sample_file" where
  "ex_file fh flat ih entries inl =
     \<lparr>fread_fb_hdr = Some ex_fb_hdr,
      fseek_ok = (\<lambda>pos. True),
      bytes_at = (\<lambda>pos. if pos = 40 then ex_str_table else []),
      fread_func_hdr = (\<lambda>pos size. if pos = 52 \<and> size = 64 then Some fh
                                     else if pos = 116 \<and> size = 64 then ih else None),
      stack_entries_at = (\<lambda>pos. if pos = 250 then entries else []),
      samples_at = (\<lambda>pos. if pos = 200 then flat else if pos = 300 then inl else [])\<rparr>"

definition ex_prog_unit :: profile where
  "ex_prog_unit = \<lparr>fb_hdr = ex_fb_hdr, str_table = ex_str_table\<rparr>"

definition ex_stack_entries :: "fb_info_inline_stack_entry list" where
  "ex_stack_entries =
     [\<lparr>entry_filename_offset = 0, entry_line_num = 5\<rparr>,
      \<lparr>entry_filename_offset = 8, entry_line_num = 6\<rparr>]"

definition smp :: "int \<Rightarrow> 64 word \<Rightarrow> 32 word \<Rightarrow> fb_info_freq" where
  "smp l f n = \<lparr>line_num = l, freq = f, num_instr = n\<rparr>"

text \<open>A file with one inline group of depth 2 that has two per-line records and the total
  99, and the state the reader is in after that group.\<close>

definition ex_group_file :: sample_file where
  "ex_group_file = ex_file (ex_func_hdr 0 1) [] (Some (ex_inline_hdr 2 2 99)) ex_stack_entries
     [smp 3 50 1, smp 4 20 1]"

definition ex_stack_buf :: "expanded_location list" where
  "ex_stack_buf = [\<lparr>file = ''b.h'', line = 6\<rparr>, \<lparr>file = ''a.c'', line = 5\<rparr>]"

definition ex_group_state :: sp_state where
  "ex_group_state =
     (let ih = ex_inline_hdr 2 2 99;
          r0 = inline_sample ex_prog_unit ih ex_stack_buf 0 (smp 3 50 1);
          r1 = inline_sample ex_prog_unit ih ex_stack_buf 1 (smp 4 20 1);
          tot = callsite_total ex_prog_unit ih ex_stack_buf in
      \<lparr>sp_htab = [], sp_inline_htab = [tot, r0, r1], inline_sample_buf = [r0, r1, tot],
       sp_max_count = 50, diagnostics = []\<rparr>)"

text \<open>A file whose only inline group has no per-line record and the total 99.\<close>

definition ex_empty_group_file :: sample_file where
  "ex_empty_group_file = ex_file (ex_func_hdr 0 1) [] (Some (ex_inline_hdr 0 2 99)) [] []"

text \<open>Two inline records with the same file, function and line, one inlined at
  \<open>a.c:5\<close> and one at \<open>a.c:7\<close>.\<close>

definition ex_inline_a :: sample_inline_freq where
  "ex_inline_a =
     \<lparr>line_num = 3, freq = 50, num_instr = 1, filename = ''b.h'', func_name = ''foo'',
      depth = 1, inline_stack = [\<lparr>file = ''a.c'', line = 5\<rparr>], is_first = True\<rparr>"

definition ex_inline_b :: sample_inline_freq where
  "ex_inline_b =
     \<lparr>line_num = 3, freq = 20, num_instr = 1, filename = ''b.h'', func_name = ''foo'',
      depth = 1, inline_stack = [\<lparr>file = ''a.c'', line = 7\<rparr>], is_first = True\<rparr>"

text \<open>A file whose only function has two per-line records of the same line 10, with the
  frequencies 7 and 9; the state after the first of them; the second as a table element;
  and a record with the key of the first per-line record of \<open>ex_group_state\<close>.\<close>

definition ex_dup_file :: sample_file where
  "ex_dup_file = ex_file (ex_func_hdr 2 0) [smp 10 7 1, smp 10 9 2] None [] []"

definition ex_first_state :: sp_state where
  "ex_first_state =
     empty_sp_state\<lparr>sp_htab := [flat_sample ex_prog_unit (ex_func_hdr 2 0) (smp 10 7 1)],
       sp_max_count := 7\<rparr>"

definition ex_second :: sample_freq_detail where
  "ex_second = flat_sample ex_prog_unit (ex_func_hdr 2 0) (smp 10 9 2)"

definition ex_inline_dup :: sample_inline_freq where
  "ex_inline_dup = inline_sample ex_prog_unit (ex_inline_hdr 2 2 99) ex_stack_buf 0 (smp 3 77 1)"

text \<open>
  A file that ends inside its inline section: the function has one per-line record and
  announces one inline group, whose header cannot be read. Next to it the state the reader
  leaves, the flags before \<^verbatim>\<open>init_sample_profile\<close>, and a file whose function announces
  two per-line records and holds one.
\<close>

definition ex_truncated_file :: sample_file where
  "ex_truncated_file = ex_file (ex_func_hdr 1 1) [smp 10 7 1] None [] []"

definition ex_truncated_state :: sp_state where
  "ex_truncated_state =
     empty_sp_state
       \<lparr>sp_htab := [flat_sample ex_prog_unit (ex_func_hdr 1 1) (smp 10 7 1)],
        sp_max_count := 7,
        diagnostics := [Error_report ''read_inline_function(): fread inline_func_hdr error.'']\<rparr>"

definition ex_globals :: sp_globals where
  "ex_globals =
     \<lparr>flag_branch_probabilities = False, flag_sample_profile = True, sp_num_samples = 0,
      sp_vars = empty_sp_state\<rparr>"

definition ex_short_file :: sample_file where
  "ex_short_file = ex_file (ex_func_hdr 2 0) [smp 10 7 1] None [] []"

text \<open>
  A file whose function has two per-line records of the same line 10, with the frequencies
  7 and 9, and one inline group with the total 99 and two per-line records with the
  frequencies 50 and 20; and the state the reader leaves after it.
\<close>

definition ex_max_file :: sample_file where
  "ex_max_file = ex_file (ex_func_hdr 2 1) [smp 10 7 1, smp 10 9 2]
     (Some (ex_inline_hdr 2 2 99)) ex_stack_entries [smp 3 50 1, smp 4 20 1]"

definition ex_max_state :: sp_state where
  "ex_max_state =
     ex_group_state
       \<lparr>sp_htab := [flat_sample ex_prog_unit (ex_func_hdr 2 1) (smp 10 7 1)],
        diagnostics := [Duplicate_entry ''a.c'' 10 ''foo'']\<rparr>"

section \<open>The annotator in the words of the specification\<close>

text \<open>
  The source locations \<^verbatim>\<open>sp_get_inline_stack\<close> records when it walks outward from a
  scope: a scope without location (location 0) is skipped, and so is one whose location
  is the one recorded last.
\<close>

fun scope_locations :: "tree \<Rightarrow> nat \<Rightarrow> nat list" where
  "scope_locations (BLOCK loc super) last_loc =
     (if loc = 0 \<or> loc = last_loc then scope_locations super last_loc
      else loc # scope_locations super loc)"
| "scope_locations NULL_TREE last_loc = []"
| "scope_locations FUNCTION_DECL last_loc = []"

definition stmt_locations :: "gimple_stmt \<Rightarrow> nat list" where
  "stmt_locations stmt =
     (case gimple_block stmt of
        BLOCK loc super \<Rightarrow> scope_locations super 0
      | NULL_TREE \<Rightarrow> []
      | FUNCTION_DECL \<Rightarrow> [])"

text \<open>A chain of \<open>n\<close> scopes with the locations \<open>n\<close>, \<open>n - 1\<close>, ..., \<open>1\<close> from the inside
  to the outside, and a statement of line 1 in the innermost of them.\<close>

fun nested_scopes :: "nat \<Rightarrow> tree" where
  "nested_scopes 0 = FUNCTION_DECL"
| "nested_scopes (Suc n) = BLOCK (Suc n) (nested_scopes n)"

definition deep_stmt :: "nat \<Rightarrow> gimple_stmt" where
  "deep_stmt n = \<lparr>gimple_lineno = 1, gimple_filename = ''a.c'', gimple_block = nested_scopes n\<rparr>"

text \<open>
  The record a statement matches: none for a statement without line; otherwise the
  element of the inline table found under the inline key if the stack is not empty, and
  the element of the flat table found under the flat key if it is. A record is named by
  its table and its position there.
\<close>

datatype sample_ref = Flat_ref nat | Inline_ref nat

definition stmt_match :: "function_context \<Rightarrow> sp_state \<Rightarrow> gimple_stmt \<Rightarrow> sample_ref option" where
  "stmt_match cx st stmt =
     (if gimple_lineno stmt = - 1 then None
      else case sp_get_inline_stack (expand_location cx) stmt of
        Inl a \<Rightarrow> None
      | Inr stack \<Rightarrow>
          if stack \<noteq> []
          then map_option Inline_ref
                 (htab_find sp_inline_info_eq (sp_inline_htab st) (inline_loc_of cx stmt stack))
          else map_option Flat_ref (htab_find sp_info_eq (sp_htab st) (ir_loc_of cx stmt)))"

text \<open>The distinct records the statements of a block match.\<close>

definition matched_records :: "function_context \<Rightarrow> sp_state \<Rightarrow> basic_block \<Rightarrow> sample_ref list" where
  "matched_records cx st bb = remdups (List.map_filter (stmt_match cx st) (stmts bb))"

fun ref_freq :: "sp_state \<Rightarrow> sample_ref \<Rightarrow> 64 word" where
  "ref_freq st (Flat_ref e) = freq (sp_htab st ! e)"
| "ref_freq st (Inline_ref e) = freq (sp_inline_htab st ! e)"

fun ref_num_instr :: "sp_state \<Rightarrow> sample_ref \<Rightarrow> 32 word" where
  "ref_num_instr st (Flat_ref e) = num_instr (sp_htab st ! e)"
| "ref_num_instr st (Inline_ref e) = num_instr (sp_inline_htab st ! e)"

text \<open>The positions of the flat and of the inline records among a list of records.\<close>

fun flat_refs :: "sample_ref list \<Rightarrow> nat list" where
  "flat_refs [] = []"
| "flat_refs (Flat_ref e # rs) = e # flat_refs rs"
| "flat_refs (Inline_ref e # rs) = flat_refs rs"

fun inline_refs :: "sample_ref list \<Rightarrow> nat list" where
  "inline_refs [] = []"
| "inline_refs (Flat_ref e # rs) = inline_refs rs"
| "inline_refs (Inline_ref e # rs) = e # inline_refs rs"

text \<open>The records counted so far are \<open>R\<close>, and the two sums are the sums over \<open>R\<close>.\<close>

definition acc_sums :: "sp_state \<Rightarrow> bb_acc \<Rightarrow> sample_ref set \<Rightarrow> bool" where
  "acc_sums st acc R \<longleftrightarrow>
     R = Flat_ref ` set (lines acc) \<union> Inline_ref ` set (lines_inline acc)
     \<and> sum_ir_count acc = sum (ref_freq st) R
     \<and> num_instr_sampled acc = sum (ref_num_instr st) R"

text \<open>
  The rule of the specification for a usable profile: more than one block with a count
  that is not zero, or exactly one and fewer than 5 blocks in the function, where the
  number of blocks of the function is \<^verbatim>\<open>n_basic_blocks\<close>.
\<close>

definition spec_usable :: "basic_block list \<Rightarrow> int \<Rightarrow> bool" where
  "spec_usable bbs n =
     (length (filter (\<lambda>bb. count bb \<noteq> 0) bbs) > 1
      \<or> (length (filter (\<lambda>bb. count bb \<noteq> 0) bbs) = 1 \<and> n < 5))"

text \<open>
  Tables for the annotator: two flat records of function \<open>foo\<close> in \<open>a.c\<close> (line 10 with
  frequency 10 and 2 instructions, line 11 with frequency 30 and 3 instructions) next to
  the inline records of \<open>ex_group_state\<close>; statements of the lines 10, 11 and 99, a
  statement without line, and a statement of line 3 of \<open>b.h\<close> inlined at \<open>b.h:6\<close> and
  \<open>a.c:5\<close>.
\<close>

definition ex_annot_state :: sp_state where
  "ex_annot_state =
     ex_group_state
       \<lparr>sp_htab :=
          [\<lparr>line_num = 10, freq = 10, num_instr = 2, filename = ''a.c'', func_name = ''foo''\<rparr>,
           \<lparr>line_num = 11, freq = 30, num_instr = 3, filename = ''a.c'', func_name = ''foo''\<rparr>]\<rparr>"

definition ex_cx :: function_context where
  "ex_cx =
     \<lparr>expand_location = (\<lambda>loc. if loc = 6 then \<lparr>file = ''b.h'', line = 6\<rparr>
                                else \<lparr>file = ''a.c'', line = int loc\<rparr>),
      current_function_assembler_name = ''foo''\<rparr>"

definition ex_stmt :: "int \<Rightarrow> gimple_stmt" where
  "ex_stmt l = \<lparr>gimple_lineno = l, gimple_filename = ''a.c'', gimple_block = NULL_TREE\<rparr>"

definition ex_inlined_stmt :: gimple_stmt where
  "ex_inlined_stmt =
     \<lparr>gimple_lineno = 3, gimple_filename = ''b.h'',
      gimple_block = BLOCK 7 (BLOCK 6 (BLOCK 0 (BLOCK 6 (BLOCK 5 FUNCTION_DECL))))\<rparr>"

definition ex_bb :: basic_block where
  "ex_bb = \<lparr>stmts = [ex_stmt 10, ex_stmt 11, ex_stmt (- 1), ex_stmt 10], count = 0\<rparr>"

definition ex_bb_inlined :: basic_block where
  "ex_bb_inlined = \<lparr>stmts = [ex_inlined_stmt, ex_stmt 10, ex_inlined_stmt], count = 0\<rparr>"

definition ex_bb_unmatched :: basic_block where
  "ex_bb_unmatched = \<lparr>stmts = [ex_stmt 99], count = 0\<rparr>"

definition ex_fn :: "int \<Rightarrow> basic_block list \<Rightarrow> cfun_state" where
  "ex_fn n bbs =
     \<lparr>n_basic_blocks = n, basic_blocks = bbs, profile_status = PROFILE_ABSENT,
      profile_info = None\<rparr>"

text \<open>
  Tables whose sums leave the range of the accumulators: two flat records of the lines 10
  and 11 with \<open>2^31\<close> instructions and the frequency \<open>2^33\<close> each; and one flat record of
  line 10 with 2 instructions and the frequency \<open>2^64 - 2\<close>.
\<close>

definition ex_wrap_state :: sp_state where
  "ex_wrap_state =
     empty_sp_state
       \<lparr>sp_htab :=
          [\<lparr>line_num = 10, freq = 8589934592, num_instr = 2147483648, filename = ''a.c'',
            func_name = ''foo''\<rparr>,
           \<lparr>line_num = 11, freq = 8589934592, num_instr = 2147483648, filename = ''a.c'',
            func_name = ''foo''\<rparr>],
        sp_max_count := 8589934592\<rparr>"

definition ex_signed_state :: sp_state where
  "ex_signed_state =
     empty_sp_state
       \<lparr>sp_htab :=
          [\<lparr>line_num = 10, freq = 18446744073709551614, num_instr = 2, filename = ''a.c'',
            func_name = ''foo''\<rparr>],
        sp_max_count := 18446744073709551614\<rparr>"

section \<open>Properties\<close>

lemma inline_stack_loop_iff:
  "inline_stack_loop a b js \<longleftrightarrow>
     (\<forall>i\<in>set js. line (inline_stack a ! i) = line (inline_stack b ! i)
        \<and> file (inline_stack a ! i) = file (inline_stack b ! i))"
  by (induction js) auto

subsection \<open>General lemmas\<close>

lemma htab_find_Some:
  "htab_find eq_f tbl x = Some i \<Longrightarrow> i < length tbl \<and> eq_f (tbl ! i) x"
proof (induction tbl arbitrary: i)
  case Nil
  then show ?case by simp
next
  case (Cons e es)
  then show ?case by (cases "eq_f e x") auto
qed

lemma htab_find_None:
  "htab_find eq_f tbl x = None \<longleftrightarrow> (\<forall>e\<in>set tbl. \<not> eq_f e x)"
  by (induction tbl) auto

lemma replicate_numeral: "replicate (numeral k) x = x # replicate (pred_numeral k) x"
  by (simp add: numeral_eq_Suc)

lemma list_update_Cons_numeral: "(x # xs)[numeral k := y] = x # xs[pred_numeral k := y]"
  by (simp add: numeral_eq_Suc)

lemma map_eq_replicate: "\<forall>x\<in>set xs. f x = v \<Longrightarrow> map f xs = replicate (length xs) v"
  by (induction xs) auto

lemmas eval_list = upt_conv_Cons replicate_numeral list_update_Cons_numeral

lemmas ex_defs = ex_file_def ex_fb_hdr_def ex_func_hdr_def ex_inline_hdr_def ex_str_table_def
  ex_prog_unit_def ex_stack_entries_def smp_def

lemmas reader_defs = read_inline_group_def fread_hdr_def ex_sizeof_hdr_def
  inline_hdr_offset_def Let_def
  FB_INLINE_MAX_STACK_def empty_sp_state_def insert_callsite_total_def callsite_total_def
  inline_sample_def insert_inline_sample_def update_max_count_def report_def
  zero_inline_freq_def zero_location_def c_string_def sp_inline_info_eq_def

subsection \<open>Equality of inline keys\<close>

lemma sp_inline_info_eq_frames:
  "sp_inline_info_eq a b \<longleftrightarrow>
     line_num a = line_num b \<and> depth a = depth b
     \<and> (\<forall>i<depth a. line (inline_stack a ! i) = line (inline_stack b ! i)
          \<and> file (inline_stack a ! i) = file (inline_stack b ! i))
     \<and> filename a = filename b \<and> func_name a = func_name b"
  by (auto simp: sp_inline_info_eq_def inline_stack_loop_iff)

text \<open>
  C8. \<^verbatim>\<open>sp_inline_info_eq\<close> holds of two inline records exactly when their depths are
  equal, the file and the line of every frame below the depth agree, and the file name,
  the function name and the line of the leaf agree. Hence two records with the same file,
  function and line whose depths differ, or that differ in some frame, are not equal, and
  a table never resolves both to the same element.
\<close>

theorem inline_key_equality:
  "(sp_inline_info_eq a b \<longleftrightarrow>
      depth a = depth b
      \<and> (\<forall>i<depth a. file (inline_stack a ! i) = file (inline_stack b ! i)
            \<and> line (inline_stack a ! i) = line (inline_stack b ! i))
      \<and> filename a = filename b \<and> func_name a = func_name b \<and> line_num a = line_num b)
   \<and> (filename a = filename b \<and> func_name a = func_name b \<and> line_num a = line_num b
        \<and> (depth a \<noteq> depth b \<or> (\<exists>i<depth a. inline_stack a ! i \<noteq> inline_stack b ! i))
      \<longrightarrow> \<not> sp_inline_info_eq a b
          \<and> (\<forall>tbl p. htab_find sp_inline_info_eq tbl a = Some p
                \<longrightarrow> htab_find sp_inline_info_eq tbl b \<noteq> Some p))"
proof (intro conjI impI)
  show "sp_inline_info_eq a b \<longleftrightarrow>
      depth a = depth b
      \<and> (\<forall>i<depth a. file (inline_stack a ! i) = file (inline_stack b ! i)
            \<and> line (inline_stack a ! i) = line (inline_stack b ! i))
      \<and> filename a = filename b \<and> func_name a = func_name b \<and> line_num a = line_num b"
    by (auto simp: sp_inline_info_eq_frames)
next
  assume h: "filename a = filename b \<and> func_name a = func_name b \<and> line_num a = line_num b
        \<and> (depth a \<noteq> depth b \<or> (\<exists>i<depth a. inline_stack a ! i \<noteq> inline_stack b ! i))"
  show ne: "\<not> sp_inline_info_eq a b"
  proof
    assume e: "sp_inline_info_eq a b"
    then have d: "depth a = depth b"
      and f: "\<forall>i<depth a. line (inline_stack a ! i) = line (inline_stack b ! i)
          \<and> file (inline_stack a ! i) = file (inline_stack b ! i)"
      by (simp_all add: sp_inline_info_eq_frames)
    from h d obtain i where i: "i < depth a" "inline_stack a ! i \<noteq> inline_stack b ! i"
      by blast
    from f i(1) have "inline_stack a ! i = inline_stack b ! i"
      by (intro expanded_location.equality) auto
    with i(2) show False by contradiction
  qed
  show "\<forall>tbl p. htab_find sp_inline_info_eq tbl a = Some p
                \<longrightarrow> htab_find sp_inline_info_eq tbl b \<noteq> Some p"
  proof (intro allI impI notI)
    fix tbl p
    assume "htab_find sp_inline_info_eq tbl a = Some p"
      and "htab_find sp_inline_info_eq tbl b = Some p"
    then have "sp_inline_info_eq (tbl ! p) a" and "sp_inline_info_eq (tbl ! p) b"
      by (auto dest: htab_find_Some)
    then have "sp_inline_info_eq a b"
      by (simp add: sp_inline_info_eq_frames)
    with ne show False by contradiction
  qed
qed

theorem inline_key_equality_witness:
  "sp_inline_info_eq ex_inline_a ex_inline_a
   \<and> filename ex_inline_a = filename ex_inline_b
   \<and> func_name ex_inline_a = func_name ex_inline_b
   \<and> line_num ex_inline_a = line_num ex_inline_b
   \<and> inline_stack ex_inline_a ! 0 \<noteq> inline_stack ex_inline_b ! 0
   \<and> \<not> sp_inline_info_eq ex_inline_a ex_inline_b
   \<and> htab_find sp_inline_info_eq [ex_inline_a] ex_inline_a = Some 0
   \<and> htab_find sp_inline_info_eq [ex_inline_a] ex_inline_b \<noteq> Some 0"
proof -
  have same: "sp_inline_info_eq ex_inline_a ex_inline_a"
    using inline_key_equality [of ex_inline_a ex_inline_a] by simp
  have leaf: "filename ex_inline_a = filename ex_inline_b
      \<and> func_name ex_inline_a = func_name ex_inline_b
      \<and> line_num ex_inline_a = line_num ex_inline_b"
    by (simp add: ex_inline_a_def ex_inline_b_def)
  have frame: "inline_stack ex_inline_a ! 0 \<noteq> inline_stack ex_inline_b ! 0"
    by (simp add: ex_inline_a_def ex_inline_b_def)
  have "0 < depth ex_inline_a"
    by (simp add: ex_inline_a_def)
  with frame have "\<exists>i<depth ex_inline_a. inline_stack ex_inline_a ! i \<noteq> inline_stack ex_inline_b ! i"
    by blast
  with leaf inline_key_equality [of ex_inline_a ex_inline_b]
  have ne: "\<not> sp_inline_info_eq ex_inline_a ex_inline_b"
    and tb: "\<forall>tbl p. htab_find sp_inline_info_eq tbl ex_inline_a = Some p
                \<longrightarrow> htab_find sp_inline_info_eq tbl ex_inline_b \<noteq> Some p"
    by blast+
  from same have here: "htab_find sp_inline_info_eq [ex_inline_a] ex_inline_a = Some 0"
    by simp
  with tb have "htab_find sp_inline_info_eq [ex_inline_a] ex_inline_b \<noteq> Some 0"
    by blast
  with same leaf frame ne here show ?thesis
    by (intro conjI) simp_all
qed

subsection \<open>The buffer of an inline group\<close>

lemma fold_update_length:
  "length (fold (\<lambda>j b. b[j := f j]) js b) = length b"
  by (induction js arbitrary: b) auto

lemma fold_update_nth:
  "p < length b \<Longrightarrow>
     fold (\<lambda>j b. b[j := f j]) js b ! p = (if p \<in> set js then f p else b ! p)"
proof (induction js arbitrary: b)
  case Nil
  then show ?case by simp
next
  case (Cons j js)
  then show ?case by (auto simp: nth_list_update)
qed

lemma fold_update_upt:
  assumes "length b = Suc n"
  shows "fold (\<lambda>j b. b[j := f j]) [0..<n] b = map f [0..<n] @ [b ! n]"
proof (rule nth_equalityI)
  show "length (fold (\<lambda>j b. b[j := f j]) [0..<n] b) = length (map f [0..<n] @ [b ! n])"
    using assms by (simp add: fold_update_length)
next
  fix p
  assume "p < length (fold (\<lambda>j b. b[j := f j]) [0..<n] b)"
  then have p: "p < Suc n" using assms by (simp add: fold_update_length)
  then show "fold (\<lambda>j b. b[j := f j]) [0..<n] b ! p = (map f [0..<n] @ [b ! n]) ! p"
    using assms by (cases "p = n") (auto simp: fold_update_nth nth_append)
qed

lemma insert_inline_sample_buf:
  "insert_inline_sample r j c st = (c', st') \<Longrightarrow>
     inline_sample_buf st' = (inline_sample_buf st)[j := r]"
  by (auto simp: insert_inline_sample_def update_max_count_def report_def Let_def
      split: option.splits if_splits)

lemma read_inline_lines_buf:
  "read_inline_lines pu ih sb samples js c st = Completed (c', st') \<Longrightarrow>
     inline_sample_buf st' =
       fold (\<lambda>j b. b[j := inline_sample pu ih sb j (samples ! j)]) js (inline_sample_buf st)"
proof (induction js arbitrary: c st)
  case Nil
  then show ?case by simp
next
  case (Cons j js)
  from Cons.prems have lt: "j < length samples"
    by (auto split: if_splits)
  obtain c1 st1 where step:
    "insert_inline_sample (inline_sample pu ih sb j (samples ! j)) j c st = (c1, st1)"
    by (cases "insert_inline_sample (inline_sample pu ih sb j (samples ! j)) j c st")
  with Cons.prems lt have "read_inline_lines pu ih sb samples js c1 st1 = Completed (c', st')"
    by simp
  then have "inline_sample_buf st' =
       fold (\<lambda>j b. b[j := inline_sample pu ih sb j (samples ! j)]) js (inline_sample_buf st1)"
    by (rule Cons.IH)
  with insert_inline_sample_buf [OF step] show ?case by simp
qed

lemma insert_callsite_total_buf:
  "inline_sample_buf (insert_callsite_total r n st) = (replicate (n + 1) zero_inline_freq)[n := r]"
  by (simp add: insert_callsite_total_def report_def Let_def split: option.splits)

lemma read_inline_group_Completed:
  assumes "fread_func_hdr infile (inline_hdr_offset pu fh k) (fb_func_hdr_ent_size (fb_hdr pu)) = Some ih"
    and "0 < func_num_freq_entries ih"
    and "read_inline_group hs infile pu fh k c st = Completed (c', st')"
  shows "0 < inline_depth ih \<and> inline_depth ih < int FB_INLINE_MAX_STACK
    \<and> nat (inline_depth ih)
        \<le> length (stack_entries_at infile (fb_profile_offset (fb_hdr pu) + inline_stack_offset ih))
    \<and> read_inline_lines pu ih (group_stack_buf infile pu ih)
        (samples_at infile (fb_profile_offset (fb_hdr pu) + func_profile_offset ih))
        [0..<func_num_freq_entries ih] c
        (insert_callsite_total (callsite_total pu ih (group_stack_buf infile pu ih))
           (func_num_freq_entries ih) st) = Completed (c', st')"
  using assms
  by (auto simp: read_inline_group_def fread_hdr_def Let_def group_stack_buf_def
      split: if_splits)

lemma read_inline_group_buf:
  assumes "fread_func_hdr infile (inline_hdr_offset pu fh k) (fb_func_hdr_ent_size (fb_hdr pu)) = Some ih"
    and "0 < func_num_freq_entries ih"
    and "read_inline_group hs infile pu fh k c st = Completed (c', st')"
  shows "inline_sample_buf st' =
     map (\<lambda>j. inline_sample pu ih (group_stack_buf infile pu ih) j
                (samples_at infile (fb_profile_offset (fb_hdr pu) + func_profile_offset ih) ! j))
       [0..<func_num_freq_entries ih]
     @ [callsite_total pu ih (group_stack_buf infile pu ih)]"
proof -
  from read_inline_group_Completed [OF assms]
  have "read_inline_lines pu ih (group_stack_buf infile pu ih)
        (samples_at infile (fb_profile_offset (fb_hdr pu) + func_profile_offset ih))
        [0..<func_num_freq_entries ih] c
        (insert_callsite_total (callsite_total pu ih (group_stack_buf infile pu ih))
           (func_num_freq_entries ih) st) = Completed (c', st')"
    by simp
  from read_inline_lines_buf [OF this]
  have buf: "inline_sample_buf st' =
       fold (\<lambda>j b. b[j := inline_sample pu ih (group_stack_buf infile pu ih) j
          (samples_at infile (fb_profile_offset (fb_hdr pu) + func_profile_offset ih) ! j)])
         [0..<func_num_freq_entries ih]
         ((replicate (func_num_freq_entries ih + 1) zero_inline_freq)
            [func_num_freq_entries ih := callsite_total pu ih (group_stack_buf infile pu ih)])"
    by (simp only: insert_callsite_total_buf)
  have len: "length ((replicate (func_num_freq_entries ih + 1) zero_inline_freq)
            [func_num_freq_entries ih := callsite_total pu ih (group_stack_buf infile pu ih)])
          = Suc (func_num_freq_entries ih)"
    by (simp only: length_list_update length_replicate Suc_eq_plus1)
  have last: "((replicate (func_num_freq_entries ih + 1) zero_inline_freq)
            [func_num_freq_entries ih := callsite_total pu ih (group_stack_buf infile pu ih)])
          ! func_num_freq_entries ih = callsite_total pu ih (group_stack_buf infile pu ih)"
    by (rule nth_list_update_eq) (simp only: length_replicate less_add_one)
  show ?thesis
    unfolding buf fold_update_upt [OF len] last ..
qed

lemma ex_group_hdr:
  "fread_func_hdr ex_group_file (inline_hdr_offset ex_prog_unit (ex_func_hdr 0 1) 0)
      (fb_func_hdr_ent_size (fb_hdr ex_prog_unit)) = Some (ex_inline_hdr 2 2 99)"
  by (simp add: ex_group_file_def ex_defs inline_hdr_offset_def)

lemma ex_group_read:
  "read_inline_group ex_sizeof_hdr ex_group_file ex_prog_unit (ex_func_hdr 0 1) 0 0 empty_sp_state
     = Completed (2, ex_group_state)"
  by (simp add: ex_group_file_def ex_group_state_def ex_stack_buf_def ex_defs reader_defs
      eval_list)

subsection \<open>The order of the frames\<close>

lemma set_up_stack_buffer_length:
  "length (set_up_stack_buffer tbl es d js buf) = length buf"
  by (induction js arbitrary: buf) auto

lemma set_up_stack_buffer_untouched:
  "\<forall>i\<in>set js. d - i - 1 \<noteq> p \<Longrightarrow> set_up_stack_buffer tbl es d js buf ! p = buf ! p"
  by (induction js arbitrary: buf) auto

lemma set_up_stack_buffer_nth:
  assumes "i \<in> set js" and "\<forall>j\<in>set js. j < d" and "length buf = d"
  shows "set_up_stack_buffer tbl es d js buf ! (d - i - 1) =
     \<lparr>file = c_string tbl (entry_filename_offset (es ! i)), line = entry_line_num (es ! i)\<rparr>"
  using assms
proof (induction js arbitrary: buf)
  case Nil
  then show ?case by simp
next
  case (Cons j js)
  show ?case
  proof (cases "i \<in> set js")
    case True
    with Cons show ?thesis by simp
  next
    case False
    with Cons.prems have ij: "i = j" by simp
    have "\<forall>k\<in>set js. d - k - 1 \<noteq> d - i - 1"
    proof
      fix k assume k: "k \<in> set js"
      with Cons.prems have "k < d" "i < d" by auto
      moreover from k False have "k \<noteq> i" by auto
      ultimately show "d - k - 1 \<noteq> d - i - 1" by arith
    qed
    then have "set_up_stack_buffer tbl es d js
                 (buf[d - j - 1 := \<lparr>file = c_string tbl (entry_filename_offset (es ! j)),
                                     line = entry_line_num (es ! j)\<rparr>]) ! (d - i - 1)
               = (buf[d - j - 1 := \<lparr>file = c_string tbl (entry_filename_offset (es ! j)),
                                     line = entry_line_num (es ! j)\<rparr>]) ! (d - i - 1)"
      by (rule set_up_stack_buffer_untouched)
    moreover from Cons.prems ij have "d - j - 1 < length buf" by auto
    ultimately show ?thesis using ij by simp
  qed
qed

text \<open>
  C6. When an inline group with per-line records has been read, every record of its
  buffer has the depth \<open>d\<close> of the group's header and a stack of \<open>d\<close> frames, the file
  holds at least \<open>d\<close> stack entries for it, and the frame at position \<open>d - 1 - i\<close> of the
  stack is the \<open>i\<close>-th entry of the file (its file name looked up in the string table,
  its line), for every \<open>i < d\<close>.
\<close>

theorem inline_stack_leaf_to_root:
  assumes "fread_func_hdr infile (inline_hdr_offset pu fh k) (fb_func_hdr_ent_size (fb_hdr pu)) = Some ih"
    and "0 < func_num_freq_entries ih"
    and "read_inline_group hs infile pu fh k c st = Completed (c', st')"
    and "r \<in> set (inline_sample_buf st')"
    and "i < depth r"
  shows "depth r = nat (inline_depth ih) \<and> length (inline_stack r) = depth r
    \<and> depth r \<le> length (stack_entries_at infile (fb_profile_offset (fb_hdr pu) + inline_stack_offset ih))
    \<and> inline_stack r ! (depth r - 1 - i) =
        \<lparr>file = c_string (str_table pu)
                 (entry_filename_offset
                    (stack_entries_at infile (fb_profile_offset (fb_hdr pu) + inline_stack_offset ih) ! i)),
         line = entry_line_num
                  (stack_entries_at infile (fb_profile_offset (fb_hdr pu) + inline_stack_offset ih) ! i)\<rparr>"
proof -
  let ?d = "nat (inline_depth ih)"
  let ?es = "stack_entries_at infile (fb_profile_offset (fb_hdr pu) + inline_stack_offset ih)"
  from read_inline_group_buf [OF assms(1-3)] assms(4)
  have r: "depth r = ?d \<and> inline_stack r = group_stack_buf infile pu ih"
    by (auto simp: inline_sample_def callsite_total_def zero_inline_freq_def)
  have len: "length (group_stack_buf infile pu ih) = ?d"
    by (simp add: group_stack_buf_def set_up_stack_buffer_length)
  from read_inline_group_Completed [OF assms(1-3)] have le: "?d \<le> length ?es"
    by simp
  from assms(5) r have i: "i < ?d" by simp
  have "group_stack_buf infile pu ih ! (?d - i - 1) =
      \<lparr>file = c_string (str_table pu) (entry_filename_offset (?es ! i)),
       line = entry_line_num (?es ! i)\<rparr>"
    unfolding group_stack_buf_def
    by (rule set_up_stack_buffer_nth) (use i in auto)
  then show ?thesis using r len le by simp
qed

theorem inline_stack_leaf_to_root_witness:
  "read_inline_group ex_sizeof_hdr ex_group_file ex_prog_unit (ex_func_hdr 0 1) 0 0 empty_sp_state
     = Completed (2, ex_group_state)
   \<and> ex_stack_entries ! 0 = \<lparr>entry_filename_offset = 0, entry_line_num = 5\<rparr>
   \<and> inline_stack (inline_sample_buf ex_group_state ! 2) ! 1 = \<lparr>file = ''a.c'', line = 5\<rparr>
   \<and> ex_stack_entries ! 1 = \<lparr>entry_filename_offset = 8, entry_line_num = 6\<rparr>
   \<and> inline_stack (inline_sample_buf ex_group_state ! 2) ! 0 = \<lparr>file = ''b.h'', line = 6\<rparr>"
proof -
  note hdr = ex_group_hdr and run = ex_group_read
  have pos: "0 < func_num_freq_entries (ex_inline_hdr 2 2 99)"
    by (simp add: ex_defs)
  have mem: "inline_sample_buf ex_group_state ! 2 \<in> set (inline_sample_buf ex_group_state)"
    by (simp add: ex_group_state_def Let_def)
  have dep: "depth (inline_sample_buf ex_group_state ! 2) = 2"
    by (simp add: ex_group_state_def Let_def callsite_total_def ex_defs)
  have es: "stack_entries_at ex_group_file
      (fb_profile_offset (fb_hdr ex_prog_unit) + inline_stack_offset (ex_inline_hdr 2 2 99))
      = ex_stack_entries"
    by (simp add: ex_group_file_def ex_file_def ex_prog_unit_def ex_fb_hdr_def ex_inline_hdr_def)
  have d0: "0 < depth (inline_sample_buf ex_group_state ! 2)"
    and d1: "1 < depth (inline_sample_buf ex_group_state ! 2)"
    by (simp_all add: dep)
  from inline_stack_leaf_to_root [OF hdr pos run mem d0]
  have f0: "inline_stack (inline_sample_buf ex_group_state ! 2) ! 1 = \<lparr>file = ''a.c'', line = 5\<rparr>"
    unfolding es dep
    by (simp add: ex_stack_entries_def ex_prog_unit_def ex_str_table_def c_string_def)
  from inline_stack_leaf_to_root [OF hdr pos run mem d1]
  have f1: "inline_stack (inline_sample_buf ex_group_state ! 2) ! 0 = \<lparr>file = ''b.h'', line = 6\<rparr>"
    unfolding es dep
    by (simp add: ex_stack_entries_def ex_prog_unit_def ex_str_table_def c_string_def)
  have e: "ex_stack_entries ! 0 = \<lparr>entry_filename_offset = 0, entry_line_num = 5\<rparr>"
    "ex_stack_entries ! 1 = \<lparr>entry_filename_offset = 8, entry_line_num = 6\<rparr>"
    by (simp_all add: ex_stack_entries_def)
  show ?thesis
    using run f0 f1 e by (intro conjI)
qed

subsection \<open>The owner of the stack buffer\<close>

text \<open>
  C4, as the source has it. When an inline group with \<open>n > 0\<close> per-line records has been
  read, its buffer holds \<open>n + 1\<close> records that all carry the group's stack buffer;
  \<^verbatim>\<open>is_first\<close> is set in exactly one of them, the first per-line record (index 0); the
  record at index \<open>n\<close> is the synthetic record of the call site, with line 0 and the
  group's total as frequency, and \<^verbatim>\<open>is_first\<close> is not set in it.
\<close>

theorem inline_stack_owner_is_first_line_record:
  assumes "fread_func_hdr infile (inline_hdr_offset pu fh k) (fb_func_hdr_ent_size (fb_hdr pu)) = Some ih"
    and "0 < func_num_freq_entries ih"
    and "read_inline_group hs infile pu fh k c st = Completed (c', st')"
  shows "length (inline_sample_buf st') = func_num_freq_entries ih + 1
    \<and> (\<forall>r\<in>set (inline_sample_buf st'). inline_stack r = group_stack_buf infile pu ih)
    \<and> map is_first (inline_sample_buf st') = True # replicate (func_num_freq_entries ih) False
    \<and> inline_sample_buf st' ! 0 =
        inline_sample pu ih (group_stack_buf infile pu ih) 0
          (samples_at infile (fb_profile_offset (fb_hdr pu) + func_profile_offset ih) ! 0)
    \<and> inline_sample_buf st' ! func_num_freq_entries ih =
        callsite_total pu ih (group_stack_buf infile pu ih)
    \<and> line_num (inline_sample_buf st' ! func_num_freq_entries ih) = 0
    \<and> freq (inline_sample_buf st' ! func_num_freq_entries ih) = total_samples ih
    \<and> \<not> is_first (inline_sample_buf st' ! func_num_freq_entries ih)"
proof -
  let ?n = "func_num_freq_entries ih"
  let ?sb = "group_stack_buf infile pu ih"
  let ?f = "\<lambda>j. inline_sample pu ih ?sb j
                (samples_at infile (fb_profile_offset (fb_hdr pu) + func_profile_offset ih) ! j)"
  have buf: "inline_sample_buf st' = map ?f [0..<?n] @ [callsite_total pu ih ?sb]"
    by (rule read_inline_group_buf [OF assms])
  have len: "length (inline_sample_buf st') = ?n + 1"
    by (simp add: buf)
  have shared: "\<forall>r\<in>set (inline_sample_buf st'). inline_stack r = ?sb"
    by (auto simp: buf inline_sample_def callsite_total_def)
  from assms(2) have upt: "[0..<?n] = 0 # [Suc 0..<?n]"
    by (simp add: upt_conv_Cons)
  have "map (is_first \<circ> ?f) [Suc 0..<?n] = replicate (length [Suc 0..<?n]) False"
    by (rule map_eq_replicate) (simp add: inline_sample_def)
  then have rest: "map is_first (map ?f [Suc 0..<?n]) = replicate (?n - 1) False"
    by simp
  have "map is_first (inline_sample_buf st')
      = True # replicate (?n - 1) False @ [False]"
    unfolding buf upt using rest by (simp add: inline_sample_def callsite_total_def)
  also have "replicate (?n - 1) False @ [False] = replicate ?n False"
    using assms(2) by (cases ?n) (simp_all add: replicate_append_same)
  finally have flags: "map is_first (inline_sample_buf st') = True # replicate ?n False" .
  have first: "inline_sample_buf st' ! 0 = ?f 0"
    using assms(2) by (simp add: buf nth_append)
  have last: "inline_sample_buf st' ! ?n = callsite_total pu ih ?sb"
    by (simp add: buf nth_append)
  show ?thesis
    using len shared flags first last by (simp add: callsite_total_def)
qed

theorem inline_stack_owner_is_first_line_record_witness:
  "read_inline_group ex_sizeof_hdr ex_group_file ex_prog_unit (ex_func_hdr 0 1) 0 0 empty_sp_state
     = Completed (2, ex_group_state)
   \<and> length (inline_sample_buf ex_group_state) = 3
   \<and> map is_first (inline_sample_buf ex_group_state) = [True, False, False]
   \<and> line_num (inline_sample_buf ex_group_state ! 0) = 3
   \<and> line_num (inline_sample_buf ex_group_state ! 2) = 0
   \<and> freq (inline_sample_buf ex_group_state ! 2) = 99"
proof -
  have pos: "0 < func_num_freq_entries (ex_inline_hdr 2 2 99)"
    by (simp add: ex_defs)
  have n: "func_num_freq_entries (ex_inline_hdr 2 2 99) = 2"
    and t: "total_samples (ex_inline_hdr 2 2 99) = 99"
    by (simp_all add: ex_defs)
  have l0: "line_num (inline_sample_buf ex_group_state ! 0) = 3"
    by (simp add: ex_group_state_def Let_def inline_sample_def smp_def)
  note th = inline_stack_owner_is_first_line_record [OF ex_group_hdr pos ex_group_read,
      unfolded n t]
  from th have len: "length (inline_sample_buf ex_group_state) = 2 + 1"
    by blast
  from th have flags: "map is_first (inline_sample_buf ex_group_state) = True # replicate 2 False"
    by blast
  from th have tl: "line_num (inline_sample_buf ex_group_state ! 2) = 0"
    by blast
  from th have tf: "freq (inline_sample_buf ex_group_state ! 2) = 99"
    by blast
  from len have len3: "length (inline_sample_buf ex_group_state) = 3"
    by simp
  from flags have flags3: "map is_first (inline_sample_buf ex_group_state) = [True, False, False]"
    by (simp add: replicate_numeral)
  from ex_group_read len3 flags3 l0 tl tf show ?thesis
    by (intro conjI)
qed

text \<open>
  The claim as the specification words it names the synthetic record of the call site
  as the owner. In the group of \<open>ex_group_file\<close> the record with line 0 and the total 99
  is the last of the buffer and \<^verbatim>\<open>is_first\<close> is not set in it; it is set in the record
  of line 3.
\<close>

theorem callsite_total_owner_counterexample:
  "read_inline_group ex_sizeof_hdr ex_group_file ex_prog_unit (ex_func_hdr 0 1) 0 0 empty_sp_state
     = Completed (2, ex_group_state)
   \<and> map (\<lambda>r. (line_num r, freq r, is_first r)) (inline_sample_buf ex_group_state)
     = [(3, 50, True), (4, 20, False), (0, 99, False)]"
  by (simp add: ex_group_file_def ex_group_state_def ex_stack_buf_def ex_defs reader_defs
      eval_list)

subsection \<open>Headers larger than the structure\<close>

text \<open>An entry of the file that is larger than \<^verbatim>\<open>struct func_sample_hdr\<close> is written
  beyond the variable that receives it, \<^verbatim>\<open>func_hdr\<close> of \<^verbatim>\<open>sp_reader\<close> or \<^verbatim>\<open>inline_func_hdr\<close>
  of \<^verbatim>\<open>read_inline_function\<close>, whatever it announces.\<close>

lemma read_function_header_overrun:
  assumes "i \<le> fb_func_hdr_num (fb_hdr pu)"
    and "fseek_ok infile (fb_func_hdr_offset (fb_hdr pu) + i * fb_func_hdr_ent_size (fb_hdr pu))"
    and "fread_func_hdr infile
           (fb_func_hdr_offset (fb_hdr pu) + i * fb_func_hdr_ent_size (fb_hdr pu))
           (fb_func_hdr_ent_size (fb_hdr pu)) = Some fh"
    and "hs < fb_func_hdr_ent_size (fb_hdr pu)"
  shows "read_function_header hs infile i pu = Inl Out_of_bounds_write"
    and "read_function hs infile pu i n st = Aborted Out_of_bounds_write"
  using assms by (simp_all add: read_function_def read_function_header_def fread_hdr_def Let_def)

lemma read_inline_group_overrun:
  assumes "fseek_ok infile (inline_hdr_offset pu fh k)"
    and "fread_func_hdr infile (inline_hdr_offset pu fh k) (fb_func_hdr_ent_size (fb_hdr pu)) = Some ih"
    and "hs < fb_func_hdr_ent_size (fb_hdr pu)"
  shows "read_inline_group hs infile pu fh k c st = Aborted Out_of_bounds_write"
  using assms by (simp add: read_inline_group_def fread_hdr_def Let_def)

subsection \<open>Inline groups without per-line records\<close>

text \<open>
  C10. When the header of an inline group is read, the headers of the file being no larger
  than the variable that receives them, and its count of per-line records is zero, the
  body of the loop ends at once: the number of samples and the whole state (both tables,
  the buffer, the maximum, the messages) are as before, whatever the total in the header,
  and the loop goes on with the next group.
\<close>

theorem inline_group_without_lines_skipped:
  assumes "fseek_ok infile (inline_hdr_offset pu fh k)"
    and "fb_func_hdr_ent_size (fb_hdr pu) \<le> hs"
    and "fread_func_hdr infile (inline_hdr_offset pu fh k) (fb_func_hdr_ent_size (fb_hdr pu)) = Some ih"
    and "func_num_freq_entries ih = 0"
  shows "read_inline_group hs infile pu fh k c st = Completed (c, st)
    \<and> read_inline_groups hs infile pu fh (k # ks) c st = read_inline_groups hs infile pu fh ks c st"
proof -
  from assms have "read_inline_group hs infile pu fh k c st = Completed (c, st)"
    by (simp add: read_inline_group_def fread_hdr_def Let_def)
  then show ?thesis by simp
qed

theorem inline_group_without_lines_skipped_witness:
  "fseek_ok ex_empty_group_file (inline_hdr_offset ex_prog_unit (ex_func_hdr 0 1) 0)
   \<and> fb_func_hdr_ent_size (fb_hdr ex_prog_unit) \<le> ex_sizeof_hdr
   \<and> fread_func_hdr ex_empty_group_file (inline_hdr_offset ex_prog_unit (ex_func_hdr 0 1) 0)
        (fb_func_hdr_ent_size (fb_hdr ex_prog_unit)) = Some (ex_inline_hdr 0 2 99)
   \<and> total_samples (ex_inline_hdr 0 2 99) = 99
   \<and> read_inline_group ex_sizeof_hdr ex_empty_group_file ex_prog_unit (ex_func_hdr 0 1) 0 7 empty_sp_state
       = Completed (7, empty_sp_state)
   \<and> read_inline_function ex_sizeof_hdr ex_empty_group_file ex_prog_unit (ex_func_hdr 0 1) 7 empty_sp_state
       = Inr (7, empty_sp_state)"
proof -
  have seek: "fseek_ok ex_empty_group_file (inline_hdr_offset ex_prog_unit (ex_func_hdr 0 1) 0)"
    by (simp add: ex_empty_group_file_def ex_file_def)
  have size: "fb_func_hdr_ent_size (fb_hdr ex_prog_unit) \<le> ex_sizeof_hdr"
    by (simp add: ex_prog_unit_def ex_fb_hdr_def ex_sizeof_hdr_def)
  have hdr: "fread_func_hdr ex_empty_group_file (inline_hdr_offset ex_prog_unit (ex_func_hdr 0 1) 0)
        (fb_func_hdr_ent_size (fb_hdr ex_prog_unit)) = Some (ex_inline_hdr 0 2 99)"
    by (simp add: ex_empty_group_file_def ex_defs inline_hdr_offset_def)
  have zero: "func_num_freq_entries (ex_inline_hdr 0 2 99) = 0"
    and tot: "total_samples (ex_inline_hdr 0 2 99) = 99"
    by (simp_all add: ex_inline_hdr_def)
  note skip = inline_group_without_lines_skipped
    [OF seek size hdr zero, where c = 7 and st = empty_sp_state and ks = "[]"]
  have one: "[0..<func_num_inline_entries (ex_func_hdr 0 1)] = [0]"
    by (simp add: ex_func_hdr_def)
  from skip have "read_inline_function ex_sizeof_hdr ex_empty_group_file ex_prog_unit (ex_func_hdr 0 1) 7
      empty_sp_state = Inr (7, empty_sp_state)"
    unfolding read_inline_function_def one by simp
  with seek size hdr tot skip show ?thesis
    by (intro conjI) simp_all
qed

subsection \<open>The tables only grow\<close>

lemma final_stateI:
  "out = Returned x \<Longrightarrow> final_state out = Some x"
  "out = Completed x \<Longrightarrow> final_state out = Some x"
  by simp_all

lemma tables_extend_refl: "tables_extend st st"
  by (simp add: tables_extend_def)

lemma tables_extend_trans:
  "tables_extend st st1 \<Longrightarrow> tables_extend st1 st2 \<Longrightarrow> tables_extend st st2"
  by (auto simp: tables_extend_def)

lemma tables_extend_report: "tables_extend st (report d st)"
  by (simp add: tables_extend_def report_def)

lemma tables_extend_max: "tables_extend st (update_max_count f st)"
  by (simp add: tables_extend_def update_max_count_def)

lemma insert_flat_sample_extends:
  "insert_flat_sample r n st = Inr (n', st') \<Longrightarrow> tables_extend st st'"
  by (auto simp: insert_flat_sample_def Let_def tables_extend_def report_def update_max_count_def
      split: if_splits option.splits)

lemma read_lines_extends:
  "final_state (read_lines pu fh samples js n st) = Some (n', st') \<Longrightarrow> tables_extend st st'"
proof (induction js arbitrary: n st)
  case Nil
  then show ?case by (simp add: tables_extend_refl)
next
  case (Cons j js)
  show ?case
  proof (cases "j < length samples")
    case False
    with Cons.prems show ?thesis by (simp add: tables_extend_refl)
  next
    case True
    show ?thesis
    proof (cases "insert_flat_sample (flat_sample pu fh (samples ! j)) n st")
      case (Inl a)
      with Cons.prems True show ?thesis by simp
    next
      case (Inr res)
      obtain n1 st1 where res: "res = (n1, st1)" by (cases res)
      with Inr Cons.prems True
      have "final_state (read_lines pu fh samples js n1 st1) = Some (n', st')" by simp
      then have "tables_extend st1 st'" by (rule Cons.IH)
      moreover from Inr res have "tables_extend st st1"
        by (auto intro: insert_flat_sample_extends)
      ultimately show ?thesis by (rule tables_extend_trans [rotated])
    qed
  qed
qed

lemmas read_lines_extends_R = read_lines_extends [OF final_stateI(1)]
lemmas read_lines_extends_C = read_lines_extends [OF final_stateI(2)]

lemma insert_inline_sample_extends:
  "insert_inline_sample r j n st = (n', st') \<Longrightarrow> tables_extend st st'"
  by (auto simp: insert_inline_sample_def Let_def tables_extend_def report_def update_max_count_def
      split: if_splits option.splits)

lemma insert_callsite_total_extends: "tables_extend st (insert_callsite_total r m st)"
  by (auto simp: insert_callsite_total_def Let_def tables_extend_def report_def
      split: option.splits)

lemma read_inline_lines_extends:
  "final_state (read_inline_lines pu ih sb samples js n st) = Some (n', st')
     \<Longrightarrow> tables_extend st st'"
proof (induction js arbitrary: n st)
  case Nil
  then show ?case by (simp add: tables_extend_refl)
next
  case (Cons j js)
  show ?case
  proof (cases "j < length samples")
    case False
    with Cons.prems show ?thesis by (auto simp: tables_extend_report)
  next
    case True
    obtain n1 st1 where step:
      "insert_inline_sample (inline_sample pu ih sb j (samples ! j)) j n st = (n1, st1)"
      by (cases "insert_inline_sample (inline_sample pu ih sb j (samples ! j)) j n st")
    with Cons.prems True
    have "final_state (read_inline_lines pu ih sb samples js n1 st1) = Some (n', st')" by simp
    then have "tables_extend st1 st'" by (rule Cons.IH)
    with insert_inline_sample_extends [OF step] show ?thesis
      by (rule tables_extend_trans)
  qed
qed

lemma read_inline_group_extends:
  "final_state (read_inline_group hs infile pu fh k n st) = Some (n', st') \<Longrightarrow> tables_extend st st'"
  unfolding read_inline_group_def Let_def
  by (auto split: if_splits option.splits sum.splits
      intro: tables_extend_refl tables_extend_report
        tables_extend_trans [OF insert_callsite_total_extends read_inline_lines_extends])

lemma read_inline_groups_extends:
  "final_state (read_inline_groups hs infile pu fh ks n st) = Some (n', st') \<Longrightarrow> tables_extend st st'"
proof (induction ks arbitrary: n st)
  case Nil
  then show ?case by (simp add: tables_extend_refl)
next
  case (Cons k ks)
  show ?case
  proof (cases "read_inline_group hs infile pu fh k n st")
    case (Aborted a)
    with Cons.prems show ?thesis by simp
  next
    case (Returned res)
    with Cons.prems have "final_state (read_inline_group hs infile pu fh k n st) = Some (n', st')"
      by simp
    then show ?thesis by (rule read_inline_group_extends)
  next
    case (Completed res)
    obtain n1 st1 where res: "res = (n1, st1)" by (cases res)
    with Completed have "final_state (read_inline_group hs infile pu fh k n st) = Some (n1, st1)"
      by simp
    then have "tables_extend st st1" by (rule read_inline_group_extends)
    moreover from Completed res Cons.prems
    have "final_state (read_inline_groups hs infile pu fh ks n1 st1) = Some (n', st')" by simp
    then have "tables_extend st1 st'" by (rule Cons.IH)
    ultimately show ?thesis by (rule tables_extend_trans)
  qed
qed

lemma read_inline_function_extends:
  "read_inline_function hs infile pu fh n st = Inr (n', st') \<Longrightarrow> tables_extend st st'"
  unfolding read_inline_function_def
  by (rule read_inline_groups_extends [of hs infile pu fh "[0..<func_num_inline_entries fh]" n st])
     (auto split: outcome.splits)

lemma read_function_extends:
  assumes a: "final_state (read_function hs infile pu i n st) = Some (n', st')"
  shows "tables_extend st st'"
proof (cases "read_function_header hs infile i pu")
  case (Inl x)
  with a show ?thesis by (simp add: read_function_def)
next
  case (Inr hdr_opt)
  show ?thesis
  proof (cases hdr_opt)
    case None
    with a Inr show ?thesis
      by (auto simp: read_function_def intro: tables_extend_report)
  next
    case (Some func_hdr)
    let ?off = "fb_profile_offset (fb_hdr pu) + func_profile_offset func_hdr + func_freq_offset func_hdr"
    let ?rl = "read_lines pu func_hdr (samples_at infile ?off) [0..<func_num_freq_entries func_hdr] n st"
    note hdr = Inr Some
    show ?thesis
    proof (cases "fseek_ok infile ?off")
      case False
      with a hdr show ?thesis
        by (auto simp: read_function_def Let_def intro: tables_extend_refl)
    next
      case True
      show ?thesis
      proof (cases ?rl)
        case (Aborted x)
        with a hdr True show ?thesis
          by (simp add: read_function_def Let_def)
      next
        case (Returned res)
        with a hdr True show ?thesis
          by (auto simp: read_function_def Let_def dest: read_lines_extends_R)
      next
        case (Completed res)
        obtain n1 st1 where res: "res = (n1, st1)" by (cases res)
        with Completed have e1: "tables_extend st st1" by (auto dest: read_lines_extends_C)
        show ?thesis
        proof (cases "func_num_inline_entries func_hdr > 0")
          case False
          with a hdr True Completed res e1 show ?thesis
            by (simp add: read_function_def Let_def)
        next
          case inl: True
          show ?thesis
          proof (cases "read_inline_function hs infile pu func_hdr n1 st1")
            case (Inl x)
            with a hdr True Completed res inl show ?thesis
              by (simp add: read_function_def Let_def)
          next
            case (Inr r2)
            obtain n2 st2 where r2: "r2 = (n2, st2)" by (cases r2)
            with Inr have "tables_extend st1 st2" by (auto dest: read_inline_function_extends)
            with e1 have "tables_extend st st2" by (rule tables_extend_trans)
            with a hdr True Completed res inl Inr r2 show ?thesis
              by (simp add: read_function_def Let_def)
          qed
        qed
      qed
    qed
  qed
qed

lemma read_functions_extends:
  "final_state (read_functions hs infile pu js n st) = Some (n', st') \<Longrightarrow> tables_extend st st'"
proof (induction js arbitrary: n st)
  case Nil
  then show ?case by (simp add: tables_extend_refl)
next
  case (Cons i js)
  show ?case
  proof (cases "read_function hs infile pu i n st")
    case (Aborted a)
    with Cons.prems show ?thesis by simp
  next
    case (Returned res)
    with Cons.prems have "final_state (read_function hs infile pu i n st) = Some (n', st')"
      by simp
    then show ?thesis by (rule read_function_extends)
  next
    case (Completed res)
    obtain n1 st1 where res: "res = (n1, st1)" by (cases res)
    with Completed have "final_state (read_function hs infile pu i n st) = Some (n1, st1)"
      by simp
    then have "tables_extend st st1" by (rule read_function_extends)
    moreover from Completed res Cons.prems
    have "final_state (read_functions hs infile pu js n1 st1) = Some (n', st')" by simp
    then have "tables_extend st1 st'" by (rule Cons.IH)
    ultimately show ?thesis by (rule tables_extend_trans)
  qed
qed

lemmas read_functions_extends_R = read_functions_extends [OF final_stateI(1)]
lemmas read_functions_extends_C = read_functions_extends [OF final_stateI(2)]

lemma sp_reader_extends:
  assumes "sp_reader hs in_file_opt st = Inr (n', st')"
  shows "tables_extend st st'"
  using assms
  by (auto simp: sp_reader_def tables_extend_report
      split: option.splits outcome.splits
      dest: read_functions_extends_R read_functions_extends_C)

lemma htab_find_append:
  "htab_find eq_f tbl k = Some p \<Longrightarrow>
     htab_find eq_f (tbl @ xs) k = Some p \<and> (tbl @ xs) ! p = tbl ! p"
proof (induction tbl arbitrary: p)
  case Nil
  then show ?case by simp
next
  case (Cons e es)
  then show ?case by (cases "eq_f e k") auto
qed


lemma tables_extend_lookup:
  assumes "tables_extend st st'"
  shows "(htab_find sp_info_eq (sp_htab st) k = Some p \<longrightarrow>
            htab_find sp_info_eq (sp_htab st') k = Some p \<and> sp_htab st' ! p = sp_htab st ! p)
       \<and> (htab_find sp_inline_info_eq (sp_inline_htab st) ki = Some q \<longrightarrow>
            htab_find sp_inline_info_eq (sp_inline_htab st') ki = Some q
            \<and> sp_inline_htab st' ! q = sp_inline_htab st ! q)"
  using assms by (auto simp: tables_extend_def htab_find_append)

lemma sp_reader_lines_positive:
  assumes "sp_reader hs in_file_opt st = Inr (n', st')" and "\<forall>e\<in>set (sp_htab st). 0 < line_num e"
  shows "\<forall>e\<in>set (sp_htab st'). 0 < line_num e"
  using sp_reader_extends [OF assms(1)] assms(2) by (auto simp: tables_extend_def)

text \<open>
  C7. A flat record whose key is already in \<^verbatim>\<open>sp_htab\<close> (the element stored has passed
  the assertion of \<^verbatim>\<open>sp_info_hash\<close>, so its line is positive) is not inserted: the
  tables are as before, one \<^verbatim>\<open>Duplicate entry\<close> message is added, the count is not
  incremented and the loop goes on with the next record. The same holds of a per-line
  record and of the synthetic record of a call site whose key is already in
  \<^verbatim>\<open>sp_inline_htab\<close>. Over a whole run of \<^verbatim>\<open>sp_reader\<close> every key that was stored
  before is found at the same position with the same value afterwards.
\<close>

theorem duplicate_key_keeps_first_value:
  "(htab_find sp_info_eq (sp_htab st) r = Some p \<and> 0 < line_num (sp_htab st ! p) \<longrightarrow>
      (\<exists>st'. insert_flat_sample r n st = Inr (n, st')
         \<and> sp_htab st' = sp_htab st \<and> sp_inline_htab st' = sp_inline_htab st
         \<and> diagnostics st' =
             diagnostics st @ [Duplicate_entry (filename r) (line_num r) (func_name r)]
         \<and> (\<forall>pu fh samples j js. j < length samples \<and> flat_sample pu fh (samples ! j) = r \<longrightarrow>
               read_lines pu fh samples (j # js) n st = read_lines pu fh samples js n st')))
   \<and> (htab_find sp_inline_info_eq (sp_inline_htab st) ri = Some q \<longrightarrow>
      (\<exists>st'. insert_inline_sample ri j n st = (n, st')
         \<and> sp_htab st' = sp_htab st \<and> sp_inline_htab st' = sp_inline_htab st
         \<and> diagnostics st' = diagnostics st @ [Duplicate_inline_entry (filename ri) (line_num ri)]
         \<and> (\<forall>pu ih sb samples js. j < length samples \<and> inline_sample pu ih sb j (samples ! j) = ri \<longrightarrow>
               read_inline_lines pu ih sb samples (j # js) n st =
               read_inline_lines pu ih sb samples js n st'))
      \<and> sp_htab (insert_callsite_total ri m st) = sp_htab st
      \<and> sp_inline_htab (insert_callsite_total ri m st) = sp_inline_htab st
      \<and> diagnostics (insert_callsite_total ri m st) = diagnostics st @ [Duplicate_callstack])
   \<and> (sp_reader hs in_file_opt st = Inr (n', st2) \<longrightarrow>
        (\<forall>k p. htab_find sp_info_eq (sp_htab st) k = Some p \<longrightarrow>
            htab_find sp_info_eq (sp_htab st2) k = Some p \<and> sp_htab st2 ! p = sp_htab st ! p)
      \<and> (\<forall>k q. htab_find sp_inline_info_eq (sp_inline_htab st) k = Some q \<longrightarrow>
            htab_find sp_inline_info_eq (sp_inline_htab st2) k = Some q
            \<and> sp_inline_htab st2 ! q = sp_inline_htab st ! q))"
proof (intro conjI impI)
  assume h: "htab_find sp_info_eq (sp_htab st) r = Some p \<and> 0 < line_num (sp_htab st ! p)"
  then have "sp_info_eq (sp_htab st ! p) r"
    by (auto dest: htab_find_Some)
  with h have pos: "0 < line_num r"
    by (simp add: sp_info_eq_def)
  let ?st' = "report (Duplicate_entry (filename r) (line_num r) (func_name r))
                (update_max_count (freq r) st)"
  have tbl: "sp_htab (update_max_count (freq r) st) = sp_htab st"
    by (simp add: update_max_count_def)
  from h pos have ins: "insert_flat_sample r n st = Inr (n, ?st')"
    by (simp add: insert_flat_sample_def Let_def tbl)
  have "sp_htab ?st' = sp_htab st \<and> sp_inline_htab ?st' = sp_inline_htab st
      \<and> diagnostics ?st' = diagnostics st @ [Duplicate_entry (filename r) (line_num r) (func_name r)]"
    by (simp add: report_def update_max_count_def)
  moreover from ins have "\<forall>pu fh samples j js. j < length samples \<and> flat_sample pu fh (samples ! j) = r \<longrightarrow>
               read_lines pu fh samples (j # js) n st = read_lines pu fh samples js n ?st'"
    by simp
  ultimately show "\<exists>st'. insert_flat_sample r n st = Inr (n, st')
         \<and> sp_htab st' = sp_htab st \<and> sp_inline_htab st' = sp_inline_htab st
         \<and> diagnostics st' =
             diagnostics st @ [Duplicate_entry (filename r) (line_num r) (func_name r)]
         \<and> (\<forall>pu fh samples j js. j < length samples \<and> flat_sample pu fh (samples ! j) = r \<longrightarrow>
               read_lines pu fh samples (j # js) n st = read_lines pu fh samples js n st')"
    using ins by blast
next
  assume h: "htab_find sp_inline_info_eq (sp_inline_htab st) ri = Some q"
  let ?st1 = "update_max_count (freq ri) (st\<lparr>inline_sample_buf := (inline_sample_buf st)[j := ri]\<rparr>)"
  let ?st' = "report (Duplicate_inline_entry (filename ri) (line_num ri)) ?st1"
  have tbl: "sp_inline_htab ?st1 = sp_inline_htab st"
    by (simp add: update_max_count_def)
  from h have ins: "insert_inline_sample ri j n st = (n, ?st')"
    by (simp add: insert_inline_sample_def Let_def tbl)
  have "sp_htab ?st' = sp_htab st \<and> sp_inline_htab ?st' = sp_inline_htab st
      \<and> diagnostics ?st' = diagnostics st @ [Duplicate_inline_entry (filename ri) (line_num ri)]"
    by (simp add: report_def update_max_count_def)
  moreover from ins have "\<forall>pu ih sb samples js. j < length samples \<and> inline_sample pu ih sb j (samples ! j) = ri \<longrightarrow>
               read_inline_lines pu ih sb samples (j # js) n st =
               read_inline_lines pu ih sb samples js n ?st'"
    by simp
  ultimately show "\<exists>st'. insert_inline_sample ri j n st = (n, st')
         \<and> sp_htab st' = sp_htab st \<and> sp_inline_htab st' = sp_inline_htab st
         \<and> diagnostics st' = diagnostics st @ [Duplicate_inline_entry (filename ri) (line_num ri)]
         \<and> (\<forall>pu ih sb samples js. j < length samples \<and> inline_sample pu ih sb j (samples ! j) = ri \<longrightarrow>
               read_inline_lines pu ih sb samples (j # js) n st =
               read_inline_lines pu ih sb samples js n st')"
    using ins by blast
  from h show "sp_htab (insert_callsite_total ri m st) = sp_htab st"
    and "sp_inline_htab (insert_callsite_total ri m st) = sp_inline_htab st"
    and "diagnostics (insert_callsite_total ri m st) = diagnostics st @ [Duplicate_callstack]"
    by (simp_all add: insert_callsite_total_def Let_def report_def)
next
  assume "sp_reader hs in_file_opt st = Inr (n', st2)"
  then have e: "tables_extend st st2" by (rule sp_reader_extends)
  from tables_extend_lookup [OF e]
  show "\<forall>k p. htab_find sp_info_eq (sp_htab st) k = Some p \<longrightarrow>
            htab_find sp_info_eq (sp_htab st2) k = Some p \<and> sp_htab st2 ! p = sp_htab st ! p"
    by blast
  from tables_extend_lookup [OF e]
  show "\<forall>k q. htab_find sp_inline_info_eq (sp_inline_htab st) k = Some q \<longrightarrow>
            htab_find sp_inline_info_eq (sp_inline_htab st2) k = Some q
            \<and> sp_inline_htab st2 ! q = sp_inline_htab st ! q"
    by blast
qed

lemmas flat_defs = sp_reader_def read_file_header_def read_string_table_def
  read_function_header_def fread_hdr_def ex_sizeof_hdr_def read_function_def
  read_inline_function_def
  insert_flat_sample_def flat_sample_def sp_info_eq_def

theorem duplicate_key_keeps_first_value_witness:
  "htab_find sp_info_eq (sp_htab ex_first_state) ex_second = Some 0
   \<and> 0 < line_num (sp_htab ex_first_state ! 0)
   \<and> freq (sp_htab ex_first_state ! 0) = 7 \<and> freq ex_second = 9
   \<and> (\<exists>st'. insert_flat_sample ex_second 1 ex_first_state = Inr (1, st')
         \<and> sp_htab st' = sp_htab ex_first_state
         \<and> diagnostics st' = [Duplicate_entry ''a.c'' 10 ''foo''])
   \<and> htab_find sp_inline_info_eq (sp_inline_htab ex_group_state) ex_inline_dup = Some 1
   \<and> (\<exists>st'. insert_inline_sample ex_inline_dup 0 2 ex_group_state = (2, st')
         \<and> sp_inline_htab st' = sp_inline_htab ex_group_state)
   \<and> (\<exists>n st2. sp_reader ex_sizeof_hdr (Some ex_dup_file) ex_first_state = Inr (n, st2)
         \<and> htab_find sp_info_eq (sp_htab st2) ex_second = Some 0
         \<and> freq (sp_htab st2 ! 0) = 7)"
proof -
  have key: "htab_find sp_info_eq (sp_htab ex_first_state) ex_second = Some 0"
    by (simp add: ex_first_state_def ex_second_def empty_sp_state_def flat_sample_def
        sp_info_eq_def smp_def)
  have pos: "0 < line_num (sp_htab ex_first_state ! 0)"
    by (simp add: ex_first_state_def empty_sp_state_def flat_sample_def smp_def)
  have vals: "freq (sp_htab ex_first_state ! 0) = 7" "freq ex_second = 9"
    by (simp_all add: ex_first_state_def ex_second_def empty_sp_state_def flat_sample_def smp_def)
  have names: "filename ex_second = ''a.c''" "line_num ex_second = 10" "func_name ex_second = ''foo''"
    by (simp_all add: ex_second_def flat_sample_def ex_defs c_string_def)
  have d0: "diagnostics ex_first_state = []"
    by (simp add: ex_first_state_def empty_sp_state_def)
  note t1 = duplicate_key_keeps_first_value [where st = ex_first_state and r = ex_second
      and p = 0 and n = 1, THEN conjunct1, THEN mp, OF conjI [OF key pos]]
  then obtain st' where s1: "insert_flat_sample ex_second 1 ex_first_state = Inr (1, st')"
    "sp_htab st' = sp_htab ex_first_state"
    "diagnostics st' = diagnostics ex_first_state
       @ [Duplicate_entry (filename ex_second) (line_num ex_second) (func_name ex_second)]"
    by blast
  from s1(3) have "diagnostics st' = [Duplicate_entry ''a.c'' 10 ''foo'']"
    unfolding names d0 by simp
  with s1(1,2)
  have flat: "\<exists>st'. insert_flat_sample ex_second 1 ex_first_state = Inr (1, st')
         \<and> sp_htab st' = sp_htab ex_first_state
         \<and> diagnostics st' = [Duplicate_entry ''a.c'' 10 ''foo'']"
    by blast
  have ikey: "htab_find sp_inline_info_eq (sp_inline_htab ex_group_state) ex_inline_dup = Some 1"
    by (simp add: ex_group_state_def ex_inline_dup_def Let_def inline_sample_def callsite_total_def
        sp_inline_info_eq_def smp_def ex_stack_buf_def ex_inline_hdr_def zero_inline_freq_def eval_list)
  note t2 = duplicate_key_keeps_first_value [where st = ex_group_state and ri = ex_inline_dup
      and q = 1 and j = 0 and n = 2, THEN conjunct2, THEN conjunct1, THEN mp, OF ikey]
  then have inl: "\<exists>st'. insert_inline_sample ex_inline_dup 0 2 ex_group_state = (2, st')
         \<and> sp_inline_htab st' = sp_inline_htab ex_group_state"
    by blast
  have "\<exists>n st2. sp_reader ex_sizeof_hdr (Some ex_dup_file) ex_first_state = Inr (n, st2)"
    by (simp add: ex_dup_file_def ex_first_state_def ex_defs flat_defs empty_sp_state_def
        update_max_count_def report_def c_string_def Let_def eval_list)
  then obtain n st2 where run: "sp_reader ex_sizeof_hdr (Some ex_dup_file) ex_first_state = Inr (n, st2)"
    by blast
  note t3 = duplicate_key_keeps_first_value [where st = ex_first_state
      and in_file_opt = "Some ex_dup_file" and n' = n and ?st2.0 = st2,
      THEN conjunct2, THEN conjunct2, THEN mp, OF run, THEN conjunct1, THEN spec, THEN spec,
      THEN mp, OF key]
  with vals(1)
  have "htab_find sp_info_eq (sp_htab st2) ex_second = Some 0 \<and> freq (sp_htab st2 ! 0) = 7"
    by simp
  with run have rd: "\<exists>n st2. sp_reader ex_sizeof_hdr (Some ex_dup_file) ex_first_state = Inr (n, st2)
         \<and> htab_find sp_info_eq (sp_htab st2) ex_second = Some 0
         \<and> freq (sp_htab st2 ! 0) = 7"
    by blast
  from key pos vals flat ikey inl rd show ?thesis
    by (intro conjI)
qed


subsection \<open>The inline stack of a statement\<close>

lemma inline_stack_walk_locations:
  "length stack \<le> FB_INLINE_MAX_STACK \<Longrightarrow>
   inline_stack_walk el t last_loc stack =
     (if length stack + length (scope_locations t last_loc) \<le> FB_INLINE_MAX_STACK
      then Inr (stack @ map el (scope_locations t last_loc))
      else Inl Out_of_bounds_write)"
proof (induction t arbitrary: last_loc stack)
  case NULL_TREE
  then show ?case by simp
next
  case (BLOCK loc super)
  then show ?case by (auto simp: c_not_def)
next
  case FUNCTION_DECL
  then show ?case by simp
qed

lemma sp_get_inline_stack_locations:
  "sp_get_inline_stack el stmt =
     (if length (stmt_locations stmt) \<le> FB_INLINE_MAX_STACK
      then Inr (map el (stmt_locations stmt))
      else Inl Out_of_bounds_write)"
  by (simp add: sp_get_inline_stack_def stmt_locations_def inline_stack_walk_locations
      FB_INLINE_MAX_STACK_def split: tree.splits)

lemma scope_locations_nested:
  "last_loc = 0 \<or> n < last_loc \<Longrightarrow> scope_locations (nested_scopes n) last_loc = rev [1..<Suc n]"
  by (induction n arbitrary: last_loc) auto

lemma stmt_locations_deep: "stmt_locations (deep_stmt (Suc n)) = rev [1..<Suc n]"
  by (simp add: stmt_locations_def deep_stmt_def scope_locations_nested)

lemma annotate_stmt_depth:
  "gimple_lineno stmt \<noteq> - 1 \<Longrightarrow> length (stmt_locations stmt) > FB_INLINE_MAX_STACK \<Longrightarrow>
     annotate_stmt cx st stmt acc = Inl Out_of_bounds_write"
  "gimple_lineno stmt \<noteq> - 1 \<Longrightarrow> length (stmt_locations stmt) = FB_INLINE_MAX_STACK \<Longrightarrow>
     annotate_stmt cx st stmt acc = Inl Assert_failure"
  by (simp_all add: annotate_stmt_def sp_get_inline_stack_locations)

text \<open>
  C5, on the code. \<^verbatim>\<open>sp_get_inline_stack\<close> returns the recorded locations when there are
  at most 200 of them and stores beyond the end of the array \<^verbatim>\<open>stack\<close> when there are
  more: it has no test of its own, and the assertion \<^verbatim>\<open>inline_stack_depth <
  FB_INLINE_MAX_STACK\<close> of \<^verbatim>\<open>sp_annotate_bb\<close> is reached only after the call. For a
  statement under 201 recorded scopes the store past the array comes first; for one
  under exactly 200 the stack fits the array and the assertion stops the compiler.
\<close>

theorem inline_stack_overflow:
  "sp_get_inline_stack el stmt =
     (if length (stmt_locations stmt) \<le> FB_INLINE_MAX_STACK
      then Inr (map el (stmt_locations stmt))
      else Inl Out_of_bounds_write)
   \<and> length (stmt_locations (deep_stmt 202)) = 201
   \<and> sp_get_inline_stack el (deep_stmt 202) = Inl Out_of_bounds_write
   \<and> annotate_stmt cx st (deep_stmt 202) acc = Inl Out_of_bounds_write
   \<and> length (stmt_locations (deep_stmt 201)) = 200
   \<and> sp_get_inline_stack el (deep_stmt 201) = Inr (map el (stmt_locations (deep_stmt 201)))
   \<and> annotate_stmt cx st (deep_stmt 201) acc = Inl Assert_failure"
proof -
  have l202: "length (stmt_locations (deep_stmt 202)) = 201"
    using stmt_locations_deep [of 201] by simp
  have l201: "length (stmt_locations (deep_stmt 201)) = 200"
    using stmt_locations_deep [of 200] by simp
  have line: "gimple_lineno (deep_stmt n) \<noteq> - 1" for n
    by (simp add: deep_stmt_def)
  show ?thesis
    using l202 l201 annotate_stmt_depth(1) [OF line [of 202], of cx st acc]
      annotate_stmt_depth(2) [OF line [of 201], of cx st acc]
    by (simp add: sp_get_inline_stack_locations FB_INLINE_MAX_STACK_def)
qed


subsection \<open>The count of a block\<close>

lemma scan_lines_take:
  "n \<le> length ls \<Longrightarrow> 0 \<le> scan_lines ls e n \<longleftrightarrow> e \<in> set (take n ls)"
  by (induction n) (auto simp: take_Suc_conv_app_nth)

lemma scan_lines_mem: "0 \<le> scan_lines ls e (length ls) \<longleftrightarrow> e \<in> set ls"
  using scan_lines_take [of "length ls" ls e] by simp

lemma acc_sums_insert_flat:
  assumes "acc_sums st acc R" and "e \<notin> set (lines acc)"
  shows "acc_sums st
           (acc\<lparr>lines := lines acc @ [e],
                sum_ir_count := sum_ir_count acc + freq (sp_htab st ! e),
                num_instr_sampled := num_instr_sampled acc + num_instr (sp_htab st ! e)\<rparr>)
           (insert (Flat_ref e) R)"
proof -
  from assms have R: "R = Flat_ref ` set (lines acc) \<union> Inline_ref ` set (lines_inline acc)"
    by (simp add: acc_sums_def)
  then have fin: "finite R" by simp
  from R assms(2) have new: "Flat_ref e \<notin> R" by auto
  from assms(1) fin new show ?thesis
    by (auto simp: acc_sums_def add.commute)
qed

lemma acc_sums_insert_inline:
  assumes "acc_sums st acc R" and "e \<notin> set (lines_inline acc)"
  shows "acc_sums st
           (acc\<lparr>lines_inline := lines_inline acc @ [e],
                sum_ir_count := sum_ir_count acc + freq (sp_inline_htab st ! e),
                num_instr_sampled := num_instr_sampled acc + num_instr (sp_inline_htab st ! e)\<rparr>)
           (insert (Inline_ref e) R)"
proof -
  from assms have R: "R = Flat_ref ` set (lines acc) \<union> Inline_ref ` set (lines_inline acc)"
    by (simp add: acc_sums_def)
  then have fin: "finite R" by simp
  from R assms(2) have new: "Inline_ref e \<notin> R" by auto
  from assms(1) fin new show ?thesis
    by (auto simp: acc_sums_def add.commute)
qed

lemma acc_sums_present:
  "acc_sums st acc R \<Longrightarrow> e \<in> set (lines acc) \<Longrightarrow> insert (Flat_ref e) R = R"
  "acc_sums st acc R \<Longrightarrow> e \<in> set (lines_inline acc) \<Longrightarrow> insert (Inline_ref e) R = R"
  by (auto simp: acc_sums_def)

lemma annotate_stmt_sums:
  assumes "annotate_stmt cx st stmt acc = Inr acc'" and "acc_sums st acc R"
  shows "acc_sums st acc' (R \<union> set_option (stmt_match cx st stmt))"
proof (cases "gimple_lineno stmt = - 1")
  case True
  with assms show ?thesis by (simp add: annotate_stmt_def stmt_match_def)
next
  case line: False
  show ?thesis
  proof (cases "sp_get_inline_stack (expand_location cx) stmt")
    case (Inl a)
    with assms line show ?thesis by (simp add: annotate_stmt_def)
  next
    case (Inr stack)
    show ?thesis
    proof (cases "stack = []")
      case True
      show ?thesis
      proof (cases "htab_find sp_info_eq (sp_htab st) (ir_loc_of cx stmt)")
        case None
        with assms line Inr True show ?thesis
          by (simp add: annotate_stmt_def stmt_match_def FB_INLINE_MAX_STACK_def)
      next
        case (Some e)
        show ?thesis
        proof (cases "e \<in> set (lines acc)")
          case True
          with assms line Inr \<open>stack = []\<close> Some show ?thesis
            by (simp add: annotate_stmt_def stmt_match_def FB_INLINE_MAX_STACK_def
                scan_lines_mem acc_sums_present)
        next
          case False
          with assms line Inr \<open>stack = []\<close> Some show ?thesis
            by (auto simp: annotate_stmt_def stmt_match_def FB_INLINE_MAX_STACK_def
                scan_lines_mem split: if_splits intro: acc_sums_insert_flat)
        qed
      qed
    next
      case False
      show ?thesis
      proof (cases "htab_find sp_inline_info_eq (sp_inline_htab st) (inline_loc_of cx stmt stack)")
        case None
        with assms line Inr False show ?thesis
          by (auto simp: annotate_stmt_def stmt_match_def split: if_splits)
      next
        case (Some e)
        show ?thesis
        proof (cases "e \<in> set (lines_inline acc)")
          case True
          with assms line Inr \<open>stack \<noteq> []\<close> Some show ?thesis
            by (auto simp: annotate_stmt_def stmt_match_def scan_lines_mem acc_sums_present
                split: if_splits)
        next
          case False
          with assms line Inr \<open>stack \<noteq> []\<close> Some show ?thesis
            by (auto simp: annotate_stmt_def stmt_match_def scan_lines_mem
                split: if_splits intro: acc_sums_insert_inline)
        qed
      qed
    qed
  qed
qed

lemma annotate_stmts_sums:
  "annotate_stmts cx st ss acc = Inr acc' \<Longrightarrow> acc_sums st acc R \<Longrightarrow>
     acc_sums st acc' (R \<union> set (List.map_filter (stmt_match cx st) ss))"
proof (induction ss arbitrary: acc R)
  case Nil
  then show ?case by (simp add: List.map_filter_simps)
next
  case (Cons s ss)
  from Cons.prems(1) obtain acc1 where
    step: "annotate_stmt cx st s acc = Inr acc1" and
    rest: "annotate_stmts cx st ss acc1 = Inr acc'"
    by (auto split: sum.splits)
  from annotate_stmt_sums [OF step Cons.prems(2)]
  have "acc_sums st acc1 (R \<union> set_option (stmt_match cx st s))" .
  from Cons.IH [OF rest this]
  have "acc_sums st acc'
      (R \<union> set_option (stmt_match cx st s) \<union> set (List.map_filter (stmt_match cx st) ss))" .
  moreover have "R \<union> set_option (stmt_match cx st s) \<union> set (List.map_filter (stmt_match cx st) ss)
      = R \<union> set (List.map_filter (stmt_match cx st) (s # ss))"
    by (cases "stmt_match cx st s") (auto simp: List.map_filter_simps)
  ultimately show ?case by simp
qed

lemma acc_sums_init: "acc_sums st init_bb_acc {}"
  by (simp add: acc_sums_def init_bb_acc_def)

lemma sp_annotate_bb_sums:
  assumes "sp_annotate_bb cx st bb = Inr bb'"
  shows "count bb' =
    (if sum_list (map (ref_num_instr st) (matched_records cx st bb)) \<noteq> 0
     then gcov_div (sum_list (map (ref_freq st) (matched_records cx st bb)))
            (sum_list (map (ref_num_instr st) (matched_records cx st bb)))
     else 0)"
proof -
  from assms obtain acc where
    loop: "annotate_stmts cx st (stmts bb) init_bb_acc = Inr acc" and
    bb': "bb' = bb\<lparr>count := (if num_instr_sampled acc > 0
             then gcov_div (sum_ir_count acc) (num_instr_sampled acc) else 0)\<rparr>"
    by (auto simp: sp_annotate_bb_def split: sum.splits)
  from annotate_stmts_sums [OF loop acc_sums_init]
  have "acc_sums st acc (set (List.map_filter (stmt_match cx st) (stmts bb)))"
    by simp
  then have "acc_sums st acc (set (matched_records cx st bb))"
    by (simp add: matched_records_def)
  moreover have "distinct (matched_records cx st bb)"
    by (simp add: matched_records_def)
  ultimately have
    "sum_ir_count acc = sum_list (map (ref_freq st) (matched_records cx st bb))"
    "num_instr_sampled acc = sum_list (map (ref_num_instr st) (matched_records cx st bb))"
    by (simp_all add: acc_sums_def sum.distinct_set_conv_list)
  with bb' show ?thesis
    by (simp add: word_gt_0)
qed

lemma unat_sum_list:
  "sum_list (map unat ws) < 2 ^ LENGTH('a) \<Longrightarrow>
     unat (sum_list (ws :: 'a::len word list)) = sum_list (map unat ws)"
proof (induction ws)
  case Nil
  then show ?case by simp
next
  case (Cons w ws)
  then have "sum_list (map unat ws) < 2 ^ LENGTH('a)" by simp
  with Cons.IH have ih: "unat (sum_list ws) = sum_list (map unat ws)" by simp
  with Cons.prems have "unat w + unat (sum_list ws) < 2 ^ LENGTH('a)" by simp
  then have "unat (w + sum_list ws) = unat w + unat (sum_list ws)"
    by (simp add: unat_add_lem)
  with ih show ?case by simp
qed

lemma sdiv_nonneg: "0 \<le> a \<Longrightarrow> 0 \<le> b \<Longrightarrow> a sdiv b = a div (b::int)"
  by (auto simp: signed_divide_int_def sgn_if)

lemma gcov_div_unat:
  assumes "unat s < 2 ^ 63"
  shows "unat (gcov_div s n) = unat s div unat n"
proof -
  have iu: "uint s = int (unat s)"
    by simp
  from assms have "int (unat s) < 2 ^ 63"
    by (metis of_nat_less_iff of_nat_numeral of_nat_power)
  with iu have up: "uint s < 2 ^ 63"
    by simp
  have "(0::int) \<le> uint s"
    by simp
  then have "- (2 ^ 63) \<le> uint s"
    by (rule order_trans [rotated]) simp
  note this up
  then have "signed_take_bit 63 (uint s) = uint s"
    by (rule signed_take_bit_int_eq_self)
  then have "sint s = uint s"
    by (simp add: sint_uint)
  with iu have "sint s = int (unat s)"
    by simp
  then have "sint s sdiv uint n = int (unat s div unat n)"
    by (simp add: sdiv_nonneg zdiv_int)
  then have q: "gcov_div s n = of_nat (unat s div unat n)"
    by (simp add: gcov_div_def)
  have "unat s div unat n \<le> unat s"
    by (rule div_le_dividend)
  also from assms have "unat s < 2 ^ LENGTH(64)"
    by simp
  finally have "unat s div unat n < 2 ^ LENGTH(64)" .
  with q show ?thesis
    by (rule of_nat_inverse [OF sym])
qed

lemma stmt_match_depth:
  assumes "gimple_lineno s \<noteq> - 1 \<longrightarrow> length (stmt_locations s) < FB_INLINE_MAX_STACK"
    and "gimple_lineno s \<noteq> - 1"
  shows "sp_get_inline_stack (expand_location cx) s
           = Inr (map (expand_location cx) (stmt_locations s))"
  using assms by (simp add: sp_get_inline_stack_locations)

lemma annotate_stmt_returns:
  assumes depth: "gimple_lineno s \<noteq> - 1 \<longrightarrow> length (stmt_locations s) < FB_INLINE_MAX_STACK"
    and flat: "\<And>e. stmt_match cx st s = Some (Flat_ref e) \<Longrightarrow> e \<notin> set (lines acc)
                 \<Longrightarrow> length (lines acc) < MAX_LINES_PER_BASIC_BLOCK"
    and inl: "\<And>e. stmt_match cx st s = Some (Inline_ref e) \<Longrightarrow> e \<notin> set (lines_inline acc)
                 \<Longrightarrow> length (lines_inline acc) < MAX_LINES_PER_BASIC_BLOCK"
    and d: "distinct (lines acc)" "distinct (lines_inline acc)"
  shows "\<exists>acc'. annotate_stmt cx st s acc = Inr acc'
           \<and> distinct (lines acc') \<and> distinct (lines_inline acc')
           \<and> set (lines acc') = set (lines acc) \<union> Flat_ref -` set_option (stmt_match cx st s)
           \<and> set (lines_inline acc')
               = set (lines_inline acc) \<union> Inline_ref -` set_option (stmt_match cx st s)"
proof (cases "gimple_lineno s = - 1")
  case True
  with d show ?thesis by (simp add: annotate_stmt_def stmt_match_def)
next
  case line: False
  let ?stack = "map (expand_location cx) (stmt_locations s)"
  from stmt_match_depth [OF depth line]
  have stk: "sp_get_inline_stack (expand_location cx) s = Inr ?stack" .
  from depth line have len: "length ?stack < FB_INLINE_MAX_STACK" by simp
  show ?thesis
  proof (cases "?stack = []")
    case True
    show ?thesis
    proof (cases "htab_find sp_info_eq (sp_htab st) (ir_loc_of cx s)")
      case None
      with line stk len True d show ?thesis
        by (simp add: annotate_stmt_def stmt_match_def)
    next
      case (Some e)
      with line stk True have m: "stmt_match cx st s = Some (Flat_ref e)"
        by (simp add: stmt_match_def)
      show ?thesis
      proof (cases "e \<in> set (lines acc)")
        case True
        with line stk len \<open>?stack = []\<close> Some d m show ?thesis
          by (auto simp: annotate_stmt_def scan_lines_mem)
      next
        case False
        from flat [OF m False] line stk len \<open>?stack = []\<close> Some d m False show ?thesis
          by (auto simp: annotate_stmt_def scan_lines_mem)
      qed
    qed
  next
    case False
    show ?thesis
    proof (cases "htab_find sp_inline_info_eq (sp_inline_htab st) (inline_loc_of cx s ?stack)")
      case None
      with line stk len False d show ?thesis
        by (simp add: annotate_stmt_def stmt_match_def)
    next
      case (Some e)
      with line stk False have m: "stmt_match cx st s = Some (Inline_ref e)"
        by (simp add: stmt_match_def)
      show ?thesis
      proof (cases "e \<in> set (lines_inline acc)")
        case True
        with line stk len \<open>?stack \<noteq> []\<close> Some d m show ?thesis
          by (auto simp: annotate_stmt_def scan_lines_mem)
      next
        case new: False
        from inl [OF m new] line stk len \<open>?stack \<noteq> []\<close> Some d m new show ?thesis
          by (auto simp: annotate_stmt_def scan_lines_mem)
      qed
    qed
  qed
qed

lemma card_new_element:
  assumes "finite B" and "set xs \<union> insert e A \<subseteq> B" and "e \<notin> set xs" and "distinct xs"
    and "card B \<le> n"
  shows "length xs < n"
proof -
  from assms(4) have "length xs = card (set xs)"
    by (simp add: distinct_card)
  also from assms(3) have "card (set xs) < card (insert e (set xs))"
    by simp
  also from assms(1,2) have "card (insert e (set xs)) \<le> card B"
    by (intro card_mono) auto
  finally show ?thesis using assms(5) by simp
qed

lemma annotate_stmts_returns:
  assumes "\<forall>s\<in>set ss. gimple_lineno s \<noteq> - 1 \<longrightarrow> length (stmt_locations s) < FB_INLINE_MAX_STACK"
    and "distinct (lines acc)" and "distinct (lines_inline acc)"
    and "card (set (lines acc) \<union> Flat_ref -` set (List.map_filter (stmt_match cx st) ss))
           \<le> MAX_LINES_PER_BASIC_BLOCK"
    and "card (set (lines_inline acc) \<union> Inline_ref -` set (List.map_filter (stmt_match cx st) ss))
           \<le> MAX_LINES_PER_BASIC_BLOCK"
  shows "\<exists>acc'. annotate_stmts cx st ss acc = Inr acc'"
  using assms
proof (induction ss arbitrary: acc)
  case Nil
  then show ?case by simp
next
  case (Cons s ss)
  let ?m = "List.map_filter (stmt_match cx st)"
  have finF: "finite (set (lines acc) \<union> Flat_ref -` set (?m (s # ss)))"
    by (auto intro!: finite_vimageI simp: inj_on_def)
  have finI: "finite (set (lines_inline acc) \<union> Inline_ref -` set (?m (s # ss)))"
    by (auto intro!: finite_vimageI simp: inj_on_def)
  have split: "set (?m (s # ss)) = set_option (stmt_match cx st s) \<union> set (?m ss)"
    by (cases "stmt_match cx st s") (auto simp: List.map_filter_simps)
  have "\<exists>acc'. annotate_stmt cx st s acc = Inr acc'
           \<and> distinct (lines acc') \<and> distinct (lines_inline acc')
           \<and> set (lines acc') = set (lines acc) \<union> Flat_ref -` set_option (stmt_match cx st s)
           \<and> set (lines_inline acc')
               = set (lines_inline acc) \<union> Inline_ref -` set_option (stmt_match cx st s)"
  proof (rule annotate_stmt_returns)
    from Cons.prems(1)
    show "gimple_lineno s \<noteq> - 1 \<longrightarrow> length (stmt_locations s) < FB_INLINE_MAX_STACK"
      by simp
  next
    fix e assume m: "stmt_match cx st s = Some (Flat_ref e)" and new: "e \<notin> set (lines acc)"
    from m have "set (lines acc) \<union> insert e {}
        \<subseteq> set (lines acc) \<union> Flat_ref -` set (?m (s # ss))"
      by (auto simp: split)
    from card_new_element [OF finF this new Cons.prems(2) Cons.prems(4)]
    show "length (lines acc) < MAX_LINES_PER_BASIC_BLOCK" .
  next
    fix e assume m: "stmt_match cx st s = Some (Inline_ref e)"
      and new: "e \<notin> set (lines_inline acc)"
    from m have "set (lines_inline acc) \<union> insert e {}
        \<subseteq> set (lines_inline acc) \<union> Inline_ref -` set (?m (s # ss))"
      by (auto simp: split)
    from card_new_element [OF finI this new Cons.prems(3) Cons.prems(5)]
    show "length (lines_inline acc) < MAX_LINES_PER_BASIC_BLOCK" .
  qed (use Cons.prems in auto)
  then obtain acc1 where
    step: "annotate_stmt cx st s acc = Inr acc1" and
    d1: "distinct (lines acc1)" "distinct (lines_inline acc1)" and
    s1: "set (lines acc1) = set (lines acc) \<union> Flat_ref -` set_option (stmt_match cx st s)"
      "set (lines_inline acc1)
         = set (lines_inline acc) \<union> Inline_ref -` set_option (stmt_match cx st s)"
    by blast
  have eqF: "set (lines acc1) \<union> Flat_ref -` set (?m ss)
      = set (lines acc) \<union> Flat_ref -` set (?m (s # ss))"
    unfolding s1 split by auto
  have eqI: "set (lines_inline acc1) \<union> Inline_ref -` set (?m ss)
      = set (lines_inline acc) \<union> Inline_ref -` set (?m (s # ss))"
    unfolding s1 split by auto
  have "\<exists>acc'. annotate_stmts cx st ss acc1 = Inr acc'"
  proof (rule Cons.IH)
    from Cons.prems(1)
    show "\<forall>s\<in>set ss. gimple_lineno s \<noteq> - 1 \<longrightarrow> length (stmt_locations s) < FB_INLINE_MAX_STACK"
      by simp
    from Cons.prems(4) show "card (set (lines acc1) \<union> Flat_ref -` set (?m ss))
        \<le> MAX_LINES_PER_BASIC_BLOCK"
      unfolding eqF .
    from Cons.prems(5) show "card (set (lines_inline acc1) \<union> Inline_ref -` set (?m ss))
        \<le> MAX_LINES_PER_BASIC_BLOCK"
      unfolding eqI .
  qed (fact d1)+
  with step show ?case by simp
qed

lemma sp_annotate_bb_returns:
  assumes "\<forall>s\<in>set (stmts bb). gimple_lineno s \<noteq> - 1 \<longrightarrow>
             length (stmt_locations s) < FB_INLINE_MAX_STACK"
    and "card (Flat_ref -` set (matched_records cx st bb)) \<le> MAX_LINES_PER_BASIC_BLOCK"
    and "card (Inline_ref -` set (matched_records cx st bb)) \<le> MAX_LINES_PER_BASIC_BLOCK"
  shows "\<exists>bb'. sp_annotate_bb cx st bb = Inr bb'"
proof -
  have "\<exists>acc'. annotate_stmts cx st (stmts bb) init_bb_acc = Inr acc'"
    by (rule annotate_stmts_returns)
       (use assms in \<open>simp_all add: init_bb_acc_def matched_records_def\<close>)
  then show ?thesis
    by (auto simp: sp_annotate_bb_def)
qed

lemma flat_refs_set: "set (flat_refs rs) = Flat_ref -` set rs"
  by (induction rs rule: flat_refs.induct) auto

lemma inline_refs_set: "set (inline_refs rs) = Inline_ref -` set rs"
  by (induction rs rule: inline_refs.induct) auto

lemma flat_refs_distinct: "distinct rs \<Longrightarrow> distinct (flat_refs rs)"
  by (induction rs rule: flat_refs.induct) (auto simp: flat_refs_set)

lemma inline_refs_distinct: "distinct rs \<Longrightarrow> distinct (inline_refs rs)"
  by (induction rs rule: inline_refs.induct) (auto simp: inline_refs_set)

lemma matched_records_card:
  "card (Flat_ref -` set (matched_records cx st bb)) = length (flat_refs (matched_records cx st bb))"
  "card (Inline_ref -` set (matched_records cx st bb))
     = length (inline_refs (matched_records cx st bb))"
proof -
  have d: "distinct (matched_records cx st bb)"
    by (simp add: matched_records_def)
  show "card (Flat_ref -` set (matched_records cx st bb))
      = length (flat_refs (matched_records cx st bb))"
    using flat_refs_distinct [OF d] by (simp add: flat_refs_set [symmetric] distinct_card)
  show "card (Inline_ref -` set (matched_records cx st bb))
      = length (inline_refs (matched_records cx st bb))"
    using inline_refs_distinct [OF d] by (simp add: inline_refs_set [symmetric] distinct_card)
qed

text \<open>
  C2, within the range of the accumulators. When \<^verbatim>\<open>sp_annotate_bb\<close> returns and the
  frequencies of the distinct records its statements match sum to less than \<open>2^63\<close> and
  their instruction counts to less than \<open>2^32\<close>, the count of the block is the quotient of
  the two sums if the sum of the instruction counts is not zero, and 0 otherwise; a record
  matched by several statements is counted once. Without the two bounds the count is what
  the code computes: the sums are those of the accumulators (a 64-bit \<^verbatim>\<open>gcov_type\<close> and a
  32-bit \<^verbatim>\<open>unsigned int\<close>, both wrapping) and the division is C's signed one. And
  \<^verbatim>\<open>sp_annotate_bb\<close> returns whenever its assertions hold: every statement with a line has
  fewer than 200 recorded scopes, and the block matches at most 500 distinct flat and at
  most 500 distinct inline records.
\<close>

theorem block_count_weighted_average:
  "(sp_annotate_bb cx st bb = Inr bb' \<longrightarrow>
      count bb' =
        (if sum_list (map (ref_num_instr st) (matched_records cx st bb)) \<noteq> 0
         then gcov_div (sum_list (map (ref_freq st) (matched_records cx st bb)))
                (sum_list (map (ref_num_instr st) (matched_records cx st bb)))
         else 0)
      \<and> (sum_list (map (\<lambda>r. unat (ref_freq st r)) (matched_records cx st bb)) < 2 ^ 63
          \<and> sum_list (map (\<lambda>r. unat (ref_num_instr st r)) (matched_records cx st bb)) < 2 ^ 32
         \<longrightarrow> unat (count bb') =
              (if sum_list (map (\<lambda>r. unat (ref_num_instr st r)) (matched_records cx st bb)) \<noteq> 0
               then sum_list (map (\<lambda>r. unat (ref_freq st r)) (matched_records cx st bb))
                    div sum_list (map (\<lambda>r. unat (ref_num_instr st r)) (matched_records cx st bb))
               else 0)))
   \<and> ((\<forall>s\<in>set (stmts bb). gimple_lineno s \<noteq> - 1 \<longrightarrow>
           length (stmt_locations s) < FB_INLINE_MAX_STACK)
       \<and> length (flat_refs (matched_records cx st bb)) \<le> MAX_LINES_PER_BASIC_BLOCK
       \<and> length (inline_refs (matched_records cx st bb)) \<le> MAX_LINES_PER_BASIC_BLOCK
      \<longrightarrow> (\<exists>bb'. sp_annotate_bb cx st bb = Inr bb'))"
proof (intro conjI impI)
  let ?ms = "matched_records cx st bb"
  let ?F = "sum_list (map (ref_freq st) ?ms)"
  let ?I = "sum_list (map (ref_num_instr st) ?ms)"
  assume run: "sp_annotate_bb cx st bb = Inr bb'"
  show c: "count bb' = (if ?I \<noteq> 0 then gcov_div ?F ?I else 0)"
    by (rule sp_annotate_bb_sums [OF run])
  assume fit: "sum_list (map (\<lambda>r. unat (ref_freq st r)) ?ms) < 2 ^ 63
        \<and> sum_list (map (\<lambda>r. unat (ref_num_instr st r)) ?ms) < 2 ^ 32"
  have "sum_list (map unat (map (ref_freq st) ?ms)) < 2 ^ 63"
    using fit by (simp add: comp_def)
  also have "(2::nat) ^ 63 < 2 ^ LENGTH(64)"
    by simp
  finally have uF: "unat ?F = sum_list (map (\<lambda>r. unat (ref_freq st r)) ?ms)"
    by (simp add: unat_sum_list comp_def)
  have "sum_list (map unat (map (ref_num_instr st) ?ms)) < 2 ^ LENGTH(32)"
    using fit by (simp add: comp_def)
  then have uI: "unat ?I = sum_list (map (\<lambda>r. unat (ref_num_instr st r)) ?ms)"
    by (simp add: unat_sum_list comp_def)
  from fit uF have "unat ?F < 2 ^ 63"
    by simp
  then have "unat (gcov_div ?F ?I) = unat ?F div unat ?I"
    by (rule gcov_div_unat)
  moreover have "?I \<noteq> 0 \<longleftrightarrow> unat ?I \<noteq> 0"
    by (simp add: unat_eq_0)
  ultimately show "unat (count bb') =
            (if sum_list (map (\<lambda>r. unat (ref_num_instr st r)) ?ms) \<noteq> 0
             then sum_list (map (\<lambda>r. unat (ref_freq st r)) ?ms)
                  div sum_list (map (\<lambda>r. unat (ref_num_instr st r)) ?ms)
             else 0)"
    unfolding c uF [symmetric] uI [symmetric] by simp
next
  assume "(\<forall>s\<in>set (stmts bb). gimple_lineno s \<noteq> - 1 \<longrightarrow>
           length (stmt_locations s) < FB_INLINE_MAX_STACK)
       \<and> length (flat_refs (matched_records cx st bb)) \<le> MAX_LINES_PER_BASIC_BLOCK
       \<and> length (inline_refs (matched_records cx st bb)) \<le> MAX_LINES_PER_BASIC_BLOCK"
  then show "\<exists>bb'. sp_annotate_bb cx st bb = Inr bb'"
    by (intro sp_annotate_bb_returns) (simp_all add: matched_records_card)
qed

lemmas annot_defs = sp_annotate_bb_def annotate_stmt_def sp_get_inline_stack_def
  ir_loc_of_def inline_loc_of_def zero_freq_detail_def zero_inline_freq_def init_bb_acc_def
  sp_info_eq_def sp_inline_info_eq_def c_not_def FB_INLINE_MAX_STACK_def
  MAX_LINES_PER_BASIC_BLOCK_def gcov_div_def signed_divide_int_def

lemmas ex_annot_defs = ex_annot_state_def ex_group_state_def ex_cx_def ex_stmt_def
  ex_inlined_stmt_def ex_bb_def ex_bb_inlined_def ex_bb_unmatched_def ex_fn_def
  inline_sample_def callsite_total_def ex_stack_buf_def ex_defs c_string_def Let_def

lemma ex_bb_annotated:
  "sp_annotate_bb ex_cx ex_annot_state ex_bb = Inr (ex_bb\<lparr>count := 8\<rparr>)"
  by (simp add: annot_defs ex_annot_defs eval_list)

lemma ex_bb_inlined_annotated:
  "sp_annotate_bb ex_cx ex_annot_state ex_bb_inlined = Inr (ex_bb_inlined\<lparr>count := 20\<rparr>)"
  by (simp add: annot_defs ex_annot_defs eval_list)

lemma ex_bb_unmatched_annotated:
  "sp_annotate_bb ex_cx ex_annot_state ex_bb_unmatched = Inr (ex_bb_unmatched\<lparr>count := 0\<rparr>)"
  by (simp add: annot_defs ex_annot_defs eval_list)

lemma ex_matched:
  "matched_records ex_cx ex_annot_state ex_bb = [Flat_ref 1, Flat_ref 0]"
  "matched_records ex_cx ex_annot_state ex_bb_inlined = [Flat_ref 0, Inline_ref 1]"
  "matched_records ex_cx ex_annot_state ex_bb_unmatched = []"
  by (simp_all add: matched_records_def stmt_match_def List.map_filter_simps annot_defs
      ex_annot_defs eval_list)

theorem block_count_weighted_average_witness:
  "sp_annotate_bb ex_cx ex_annot_state ex_bb = Inr (ex_bb\<lparr>count := 8\<rparr>)
   \<and> map (\<lambda>r. (ref_freq ex_annot_state r, ref_num_instr ex_annot_state r))
        (matched_records ex_cx ex_annot_state ex_bb) = [(30, 3), (10, 2)]
   \<and> unat (count (ex_bb\<lparr>count := 8\<rparr>)) = (30 + 10) div (3 + 2)
   \<and> sp_annotate_bb ex_cx ex_annot_state ex_bb_unmatched = Inr (ex_bb_unmatched\<lparr>count := 0\<rparr>)
   \<and> matched_records ex_cx ex_annot_state ex_bb_unmatched = []
   \<and> unat (count (ex_bb_unmatched\<lparr>count := 0\<rparr>)) = 0
   \<and> list_all (\<lambda>s. length (stmt_locations s) < FB_INLINE_MAX_STACK) (stmts ex_bb_inlined)
   \<and> (\<exists>bb'. sp_annotate_bb ex_cx ex_annot_state ex_bb_inlined = Inr bb')"
proof -
  note avg_of = block_count_weighted_average [THEN conjunct1, THEN mp, THEN conjunct2, THEN mp]
  have recs: "map (\<lambda>r. (ref_freq ex_annot_state r, ref_num_instr ex_annot_state r))
        (matched_records ex_cx ex_annot_state ex_bb) = [(30, 3), (10, 2)]"
    unfolding ex_matched by (simp add: ex_annot_state_def)
  have fit: "sum_list (map (\<lambda>r. unat (ref_freq ex_annot_state r))
               (matched_records ex_cx ex_annot_state ex_bb)) < 2 ^ 63
        \<and> sum_list (map (\<lambda>r. unat (ref_num_instr ex_annot_state r))
               (matched_records ex_cx ex_annot_state ex_bb)) < 2 ^ 32"
    unfolding ex_matched by (simp add: ex_annot_state_def)
  from avg_of [OF ex_bb_annotated fit]
  have avg: "unat (count (ex_bb\<lparr>count := 8\<rparr>)) = (30 + 10) div (3 + 2)"
    unfolding ex_matched by (simp add: ex_annot_state_def)
  have fit0: "sum_list (map (\<lambda>r. unat (ref_freq ex_annot_state r))
               (matched_records ex_cx ex_annot_state ex_bb_unmatched)) < 2 ^ 63
        \<and> sum_list (map (\<lambda>r. unat (ref_num_instr ex_annot_state r))
               (matched_records ex_cx ex_annot_state ex_bb_unmatched)) < 2 ^ 32"
    unfolding ex_matched by simp
  from avg_of [OF ex_bb_unmatched_annotated fit0]
  have none: "unat (count (ex_bb_unmatched\<lparr>count := 0\<rparr>)) = 0"
    unfolding ex_matched by simp
  have depth: "list_all (\<lambda>s. length (stmt_locations s) < FB_INLINE_MAX_STACK)
      (stmts ex_bb_inlined)"
    by (simp add: ex_bb_inlined_def ex_inlined_stmt_def ex_stmt_def stmt_locations_def
        FB_INLINE_MAX_STACK_def)
  then have "\<forall>s\<in>set (stmts ex_bb_inlined). gimple_lineno s \<noteq> - 1 \<longrightarrow>
           length (stmt_locations s) < FB_INLINE_MAX_STACK"
    by (simp add: list_all_iff)
  moreover have "length (flat_refs (matched_records ex_cx ex_annot_state ex_bb_inlined))
        \<le> MAX_LINES_PER_BASIC_BLOCK"
    and "length (inline_refs (matched_records ex_cx ex_annot_state ex_bb_inlined))
        \<le> MAX_LINES_PER_BASIC_BLOCK"
    unfolding ex_matched by (simp_all add: MAX_LINES_PER_BASIC_BLOCK_def)
  ultimately have ret: "\<exists>bb'. sp_annotate_bb ex_cx ex_annot_state ex_bb_inlined = Inr bb'"
    by (intro block_count_weighted_average [THEN conjunct2, THEN mp] conjI)
  from ex_bb_annotated recs avg ex_bb_unmatched_annotated ex_matched(3) none depth ret
  show ?thesis by (intro conjI)
qed

text \<open>
  C2 as the specification words it, for every block, does not hold. Two matched records
  of \<open>2^31\<close> instructions each make the 32-bit sum of the instruction counts 0, so the
  count is 0 although the instruction counts sum to \<open>2^32\<close> and the quotient is 4. One
  matched record with the frequency \<open>2^64 - 2\<close> and 2 instructions makes the count \<open>- 1\<close>,
  the frequency being read as the signed number \<open>- 2\<close>, although the quotient is
  \<open>2^63 - 1\<close>.
\<close>

theorem block_count_wraps_counterexample:
  "sp_annotate_bb ex_cx ex_wrap_state ex_bb = Inr (ex_bb\<lparr>count := 0\<rparr>)
   \<and> sum_list (map (\<lambda>r. unat (ref_num_instr ex_wrap_state r))
        (matched_records ex_cx ex_wrap_state ex_bb)) = 4294967296
   \<and> sum_list (map (\<lambda>r. unat (ref_freq ex_wrap_state r))
        (matched_records ex_cx ex_wrap_state ex_bb)) = 17179869184
   \<and> (17179869184::nat) div 4294967296 = 4
   \<and> sp_annotate_bb ex_cx ex_signed_state ex_bb = Inr (ex_bb\<lparr>count := - 1\<rparr>)
   \<and> map (\<lambda>r. (unat (ref_freq ex_signed_state r), unat (ref_num_instr ex_signed_state r)))
        (matched_records ex_cx ex_signed_state ex_bb) = [(18446744073709551614, 2)]
   \<and> (18446744073709551614::nat) div 2 = 9223372036854775807"
  by (simp add: matched_records_def stmt_match_def List.map_filter_simps annot_defs
      ex_annot_defs ex_wrap_state_def ex_signed_state_def empty_sp_state_def eval_list)

subsection \<open>The usable profile\<close>

lemma annotate_bbs_result:
  "annotate_bbs cx st bbs n = Inr (bbs', n') \<Longrightarrow>
     list_all2 (\<lambda>bb bb'. sp_annotate_bb cx st bb = Inr bb') bbs bbs'
     \<and> n' = n + int (length (filter (\<lambda>bb. count bb \<noteq> 0) bbs'))"
proof (induction bbs arbitrary: n bbs' n')
  case Nil
  then show ?case by simp
next
  case (Cons bb rest)
  from Cons.prems obtain b' rest' where
    b: "sp_annotate_bb cx st bb = Inr b'" and
    r: "annotate_bbs cx st rest (if count b' \<noteq> 0 then n + 1 else n) = Inr (rest', n')" and
    res: "bbs' = b' # rest'"
    by (auto split: sum.splits prod.splits)
  from Cons.IH [OF r] b res show ?case
    by auto
qed

text \<open>
  C1, as the source has it. When \<^verbatim>\<open>sp_annotate_cfg\<close> returns, every block has been
  annotated by \<^verbatim>\<open>sp_annotate_bb\<close>; the profile is used exactly when more than one block
  has a count that is not zero, or exactly one has and \<^verbatim>\<open>n_basic_blocks\<close> is below 5. If
  it is used, the graph is smoothed, \<^verbatim>\<open>profile_status\<close> is \<^verbatim>\<open>PROFILE_READ\<close> and the
  summary is published; if not, the count of every block is 0 and the status and the
  summary are as before. So a function with one annotated block is accepted when
  \<^verbatim>\<open>n_basic_blocks\<close> is 3 or 4 and rejected when it is 5 or more.
\<close>

theorem profile_usability:
  assumes "sp_annotate_cfg smooth cx st fn = Inr fn'"
  shows "\<exists>bbs. list_all2 (\<lambda>bb bb'. sp_annotate_bb cx st bb = Inr bb') (basic_blocks fn) bbs
    \<and> (spec_usable bbs (n_basic_blocks fn) \<longleftrightarrow>
         length (filter (\<lambda>bb. count bb \<noteq> 0) bbs) > 1
         \<or> length (filter (\<lambda>bb. count bb \<noteq> 0) bbs) = 1 \<and> n_basic_blocks fn < 5)
    \<and> (if spec_usable bbs (n_basic_blocks fn)
        then fn' = (smooth (fn\<lparr>basic_blocks := bbs\<rparr>))
               \<lparr>profile_status := PROFILE_READ,
                profile_info := Some \<lparr>runs = 1, sum_max = sp_max_count st\<rparr>\<rparr>
        else fn' = fn\<lparr>basic_blocks := map (\<lambda>bb. bb\<lparr>count := 0\<rparr>) bbs\<rparr>
          \<and> list_all (\<lambda>bb. count bb = 0) (basic_blocks fn')
          \<and> length (basic_blocks fn') = length (basic_blocks fn)
          \<and> profile_status fn' = profile_status fn \<and> profile_info fn' = profile_info fn)"
proof -
  from assms obtain bbs k where
    loop: "annotate_bbs cx st (basic_blocks fn) 0 = Inr (bbs, k)"
    by (auto simp: sp_annotate_cfg_def split: sum.splits)
  from annotate_bbs_result [OF loop]
  have all: "list_all2 (\<lambda>bb bb'. sp_annotate_bb cx st bb = Inr bb') (basic_blocks fn) bbs"
    and k: "k = int (length (filter (\<lambda>bb. count bb \<noteq> 0) bbs))"
    by simp_all
  from k have cond: "(k > 1 \<or> (k = 1 \<and> n_basic_blocks fn < MIN_SAMPLE_BB_COUNT))
      \<longleftrightarrow> spec_usable bbs (n_basic_blocks fn)"
    by (auto simp: spec_usable_def MIN_SAMPLE_BB_COUNT_def)
  from all have len: "length bbs = length (basic_blocks fn)"
    by (simp add: list_all2_lengthD)
  have iff: "spec_usable bbs (n_basic_blocks fn) \<longleftrightarrow>
         length (filter (\<lambda>bb. count bb \<noteq> 0) bbs) > 1
         \<or> length (filter (\<lambda>bb. count bb \<noteq> 0) bbs) = 1 \<and> n_basic_blocks fn < 5"
    by (simp add: spec_usable_def)
  have main: "if spec_usable bbs (n_basic_blocks fn)
        then fn' = (smooth (fn\<lparr>basic_blocks := bbs\<rparr>))
               \<lparr>profile_status := PROFILE_READ,
                profile_info := Some \<lparr>runs = 1, sum_max = sp_max_count st\<rparr>\<rparr>
        else fn' = fn\<lparr>basic_blocks := map (\<lambda>bb. bb\<lparr>count := 0\<rparr>) bbs\<rparr>
          \<and> list_all (\<lambda>bb. count bb = 0) (basic_blocks fn')
          \<and> length (basic_blocks fn') = length (basic_blocks fn)
          \<and> profile_status fn' = profile_status fn \<and> profile_info fn' = profile_info fn"
    using assms loop cond len
    by (auto simp: sp_annotate_cfg_def list_all_iff)
  show ?thesis
    by (rule exI [of _ bbs]) (intro conjI all iff main)
qed

lemmas ex_annotated = ex_bb_annotated ex_bb_inlined_annotated ex_bb_unmatched_annotated

lemma ex_max: "sp_max_count ex_annot_state = 50"
  by (simp add: ex_annot_state_def ex_group_state_def Let_def)

lemma ex_counts:
  "count (ex_bb\<lparr>count := 8\<rparr>) \<noteq> 0" "count (ex_bb_unmatched\<lparr>count := 0\<rparr>) = 0"
  by simp_all

text \<open>
  The claim as the specification words it has a function with 1 of 3 blocks annotated
  rejected and one with 1 of 4 accepted. With \<^verbatim>\<open>n_basic_blocks = 3\<close> and its one block
  annotated the function is accepted. (\<^verbatim>\<open>n_basic_blocks\<close> counts the entry and the exit
  block too, as the dump of \<^verbatim>\<open>n_basic_blocks - 2\<close> shows; a function in which
  \<^verbatim>\<open>FOR_EACH_BB\<close> visits four blocks has \<^verbatim>\<open>n_basic_blocks = 6\<close> and is rejected with one
  block annotated.)
\<close>

theorem one_of_three_blocks_counterexample:
  "sp_annotate_cfg (\<lambda>fn. fn) ex_cx ex_annot_state (ex_fn 3 [ex_bb])
     = Inr ((ex_fn 3 [ex_bb\<lparr>count := 8\<rparr>])
             \<lparr>profile_status := PROFILE_READ,
              profile_info := Some \<lparr>runs = 1, sum_max = 50\<rparr>\<rparr>)
   \<and> sp_annotate_cfg (\<lambda>fn. fn) ex_cx ex_annot_state
       (ex_fn 6 [ex_bb, ex_bb_unmatched, ex_bb_unmatched, ex_bb_unmatched])
     = Inr (ex_fn 6 [ex_bb\<lparr>count := 0\<rparr>, ex_bb_unmatched\<lparr>count := 0\<rparr>,
                     ex_bb_unmatched\<lparr>count := 0\<rparr>, ex_bb_unmatched\<lparr>count := 0\<rparr>])"
  by (simp add: sp_annotate_cfg_def ex_annotated ex_max ex_fn_def MIN_SAMPLE_BB_COUNT_def)

lemma ex_run4:
  "sp_annotate_cfg (\<lambda>fn. fn) ex_cx ex_annot_state (ex_fn 4 [ex_bb, ex_bb_unmatched])
     = Inr ((ex_fn 4 [ex_bb\<lparr>count := 8\<rparr>, ex_bb_unmatched\<lparr>count := 0\<rparr>])
             \<lparr>profile_status := PROFILE_READ,
              profile_info := Some \<lparr>runs = 1, sum_max = 50\<rparr>\<rparr>)"
  by (simp add: sp_annotate_cfg_def ex_annotated ex_max ex_fn_def MIN_SAMPLE_BB_COUNT_def)

lemma ex_run5:
  "sp_annotate_cfg (\<lambda>fn. fn) ex_cx ex_annot_state
       (ex_fn 5 [ex_bb, ex_bb_unmatched, ex_bb_unmatched])
     = Inr (ex_fn 5 [ex_bb\<lparr>count := 0\<rparr>, ex_bb_unmatched\<lparr>count := 0\<rparr>,
                     ex_bb_unmatched\<lparr>count := 0\<rparr>])"
  by (simp add: sp_annotate_cfg_def ex_annotated ex_max ex_fn_def MIN_SAMPLE_BB_COUNT_def)

theorem profile_usability_witness:
  "sp_annotate_cfg (\<lambda>fn. fn) ex_cx ex_annot_state (ex_fn 4 [ex_bb, ex_bb_unmatched])
     = Inr ((ex_fn 4 [ex_bb\<lparr>count := 8\<rparr>, ex_bb_unmatched\<lparr>count := 0\<rparr>])
             \<lparr>profile_status := PROFILE_READ,
              profile_info := Some \<lparr>runs = 1, sum_max = 50\<rparr>\<rparr>)
   \<and> spec_usable [ex_bb\<lparr>count := 8\<rparr>, ex_bb_unmatched\<lparr>count := 0\<rparr>] 4
   \<and> sp_annotate_cfg (\<lambda>fn. fn) ex_cx ex_annot_state
       (ex_fn 5 [ex_bb, ex_bb_unmatched, ex_bb_unmatched])
     = Inr (ex_fn 5 [ex_bb\<lparr>count := 0\<rparr>, ex_bb_unmatched\<lparr>count := 0\<rparr>,
                     ex_bb_unmatched\<lparr>count := 0\<rparr>])
   \<and> \<not> spec_usable [ex_bb\<lparr>count := 8\<rparr>, ex_bb_unmatched\<lparr>count := 0\<rparr>,
                      ex_bb_unmatched\<lparr>count := 0\<rparr>] 5
   \<and> list_all (\<lambda>bb. count bb = 0)
        (basic_blocks (ex_fn 5 [ex_bb\<lparr>count := 0\<rparr>, ex_bb_unmatched\<lparr>count := 0\<rparr>,
                     ex_bb_unmatched\<lparr>count := 0\<rparr>]))"
proof -
  let ?b4 = "[ex_bb\<lparr>count := 8\<rparr>, ex_bb_unmatched\<lparr>count := 0\<rparr>]"
  let ?b5 = "[ex_bb\<lparr>count := 8\<rparr>, ex_bb_unmatched\<lparr>count := 0\<rparr>, ex_bb_unmatched\<lparr>count := 0\<rparr>]"
  let ?f5 = "ex_fn 5 [ex_bb\<lparr>count := 0\<rparr>, ex_bb_unmatched\<lparr>count := 0\<rparr>,
                     ex_bb_unmatched\<lparr>count := 0\<rparr>]"
  from profile_usability [OF ex_run4] obtain bbs4 where
    a4: "list_all2 (\<lambda>bb bb'. sp_annotate_bb ex_cx ex_annot_state bb = Inr bb')
           (basic_blocks (ex_fn 4 [ex_bb, ex_bb_unmatched])) bbs4" and
    u4: "spec_usable bbs4 (n_basic_blocks (ex_fn 4 [ex_bb, ex_bb_unmatched])) \<longleftrightarrow>
         length (filter (\<lambda>bb. count bb \<noteq> 0) bbs4) > 1
         \<or> length (filter (\<lambda>bb. count bb \<noteq> 0) bbs4) = 1
            \<and> n_basic_blocks (ex_fn 4 [ex_bb, ex_bb_unmatched]) < 5"
    by blast
  from a4 have b4: "bbs4 = ?b4"
    by (auto simp: ex_fn_def list_all2_Cons1 ex_annotated)
  from u4 have use4: "spec_usable ?b4 4"
    unfolding b4 by (simp add: ex_fn_def)
  from profile_usability [OF ex_run5] obtain bbs5 where
    a5: "list_all2 (\<lambda>bb bb'. sp_annotate_bb ex_cx ex_annot_state bb = Inr bb')
           (basic_blocks (ex_fn 5 [ex_bb, ex_bb_unmatched, ex_bb_unmatched])) bbs5" and
    u5: "spec_usable bbs5 (n_basic_blocks (ex_fn 5 [ex_bb, ex_bb_unmatched, ex_bb_unmatched])) \<longleftrightarrow>
         length (filter (\<lambda>bb. count bb \<noteq> 0) bbs5) > 1
         \<or> length (filter (\<lambda>bb. count bb \<noteq> 0) bbs5) = 1
            \<and> n_basic_blocks (ex_fn 5 [ex_bb, ex_bb_unmatched, ex_bb_unmatched]) < 5" and
    r5: "if spec_usable bbs5 (n_basic_blocks (ex_fn 5 [ex_bb, ex_bb_unmatched, ex_bb_unmatched]))
         then ?f5 = (ex_fn 5 [ex_bb, ex_bb_unmatched, ex_bb_unmatched]\<lparr>basic_blocks := bbs5\<rparr>)
               \<lparr>profile_status := PROFILE_READ,
                profile_info := Some \<lparr>runs = 1, sum_max = sp_max_count ex_annot_state\<rparr>\<rparr>
         else ?f5 = (ex_fn 5 [ex_bb, ex_bb_unmatched, ex_bb_unmatched])
                \<lparr>basic_blocks := map (\<lambda>bb. bb\<lparr>count := 0\<rparr>) bbs5\<rparr>
          \<and> list_all (\<lambda>bb. count bb = 0) (basic_blocks ?f5)
          \<and> length (basic_blocks ?f5)
              = length (basic_blocks (ex_fn 5 [ex_bb, ex_bb_unmatched, ex_bb_unmatched]))
          \<and> profile_status ?f5 = profile_status (ex_fn 5 [ex_bb, ex_bb_unmatched, ex_bb_unmatched])
          \<and> profile_info ?f5 = profile_info (ex_fn 5 [ex_bb, ex_bb_unmatched, ex_bb_unmatched])"
    by blast
  from a5 have b5: "bbs5 = ?b5"
    by (auto simp: ex_fn_def list_all2_Cons1 ex_annotated)
  from u5 have use5: "\<not> spec_usable ?b5 5"
    unfolding b5 by (simp add: ex_fn_def)
  from r5 use5 have zero: "list_all (\<lambda>bb. count bb = 0) (basic_blocks ?f5)"
    unfolding b5 by (simp add: ex_fn_def)
  from ex_run4 use4 ex_run5 use5 zero show ?thesis
    by (intro conjI)
qed


subsection \<open>The maximum frequency\<close>

lemma update_max_count_max:
  "sp_max_count (update_max_count f st) = max (sp_max_count st) f"
  by (auto simp: update_max_count_def max_def)

lemma insert_flat_sample_max:
  "insert_flat_sample r n st = Inr (n1, st1) \<Longrightarrow> sp_max_count st1 = max (sp_max_count st) (freq r)"
  by (auto simp: insert_flat_sample_def Let_def report_def update_max_count_max
      split: if_splits option.splits)

lemma insert_inline_sample_max:
  "insert_inline_sample r j n st = (n1, st1) \<Longrightarrow> sp_max_count st1 = max (sp_max_count st) (freq r)"
  by (auto simp: insert_inline_sample_def Let_def report_def update_max_count_max
      split: option.splits)

lemma insert_callsite_total_max:
  "sp_max_count (insert_callsite_total r m st) = sp_max_count st"
  by (simp add: insert_callsite_total_def Let_def report_def split: option.splits)

lemma takeWhile_upt: "takeWhile (\<lambda>j. j < L) [0..<m] = [0..<min m L]"
proof (cases "m \<le> L")
  case True
  then show ?thesis by (simp add: takeWhile_eq_all_conv min_def)
next
  case False
  then have "[0..<m] = [0..<L] @ L # [Suc L..<m]"
    by (metis leI le0 upt_conv_Cons le_Suc_ex less_imp_le_nat upt_add_eq_append)
  moreover have "takeWhile (\<lambda>j. j < L) ([0..<L] @ L # [Suc L..<m])
      = [0..<L] @ takeWhile (\<lambda>j. j < L) (L # [Suc L..<m])"
    by (rule takeWhile_append2) simp
  ultimately show ?thesis using False by (simp add: min_def)
qed

lemma report_max: "sp_max_count (report d st) = sp_max_count st"
  by (simp add: report_def)

lemma map_nth_take: "map ((!) xs) [0..<min m (length xs)] = take m xs"
  by (simp add: list_eq_iff_nth_eq)

lemma lines_read_upt:
  "(map ((!) samples) (takeWhile (\<lambda>j. j < length samples) [0..<m]),
    list_all (\<lambda>j. j < length samples) [0..<m]) = lines_read samples m"
  by (auto simp: lines_read_def takeWhile_upt map_nth_take list_all_iff)

lemma read_lines_max_after:
  "max_after (read_lines pu fh samples js n st)
     (map ((!) samples) (takeWhile (\<lambda>j. j < length samples) js),
      list_all (\<lambda>j. j < length samples) js) (sp_max_count st)"
proof (induction js arbitrary: n st)
  case Nil
  then show ?case by (simp add: max_after_def)
next
  case (Cons j js)
  show ?case
  proof (cases "j < length samples")
    case False
    then show ?thesis by (simp add: max_after_def report_max)
  next
    case True
    show ?thesis
    proof (cases "insert_flat_sample (flat_sample pu fh (samples ! j)) n st")
      case (Inl a)
      with True show ?thesis by (simp add: max_after_def)
    next
      case (Inr r)
      obtain n1 st1 where r: "r = (n1, st1)" by (cases r)
      from insert_flat_sample_max [OF Inr [unfolded r]]
      have "sp_max_count st1 = max (freq (samples ! j)) (sp_max_count st)"
        by (simp add: flat_sample_def max.commute)
      with Cons.IH [of n1 st1] True Inr r show ?thesis
        by (auto simp: max_after_def split: outcome.splits)
    qed
  qed
qed

lemma read_inline_lines_max_after:
  "max_after (read_inline_lines pu ih sb samples js n st)
     (map ((!) samples) (takeWhile (\<lambda>j. j < length samples) js),
      list_all (\<lambda>j. j < length samples) js) (sp_max_count st)"
proof (induction js arbitrary: n st)
  case Nil
  then show ?case by (simp add: max_after_def)
next
  case (Cons j js)
  show ?case
  proof (cases "j < length samples")
    case False
    then show ?thesis by (simp add: max_after_def report_max)
  next
    case True
    obtain n1 st1 where step:
      "insert_inline_sample (inline_sample pu ih sb j (samples ! j)) j n st = (n1, st1)"
      by (cases "insert_inline_sample (inline_sample pu ih sb j (samples ! j)) j n st")
    from insert_inline_sample_max [OF step]
    have "sp_max_count st1 = max (freq (samples ! j)) (sp_max_count st)"
      by (simp add: inline_sample_def max.commute)
    with Cons.IH [of n1 st1] True step show ?thesis
      by (auto simp: max_after_def split: outcome.splits)
  qed
qed

lemma max_after_empty:
  "max_after (Returned (n, st')) ([], False) m \<longleftrightarrow> sp_max_count st' = m"
  "max_after (Completed (n, st')) ([], True) m \<longleftrightarrow> sp_max_count st' = m"
  "max_after (Aborted a) rs m"
  by (simp_all add: max_after_def)

lemma read_inline_group_max_after:
  "max_after (read_inline_group hs infile pu fh k n st) (group_line_records infile pu fh k)
     (sp_max_count st)"
proof -
  have lines: "max_after
      (read_inline_lines pu ih sb samples [0..<m] n (insert_callsite_total r m st))
      (lines_read samples m) (sp_max_count st)" for ih sb samples m r
    using read_inline_lines_max_after [of pu ih sb samples "[0..<m]" n "insert_callsite_total r m st"]
    by (simp only: lines_read_upt insert_callsite_total_max)
  show ?thesis
    unfolding read_inline_group_def group_line_records_def fread_hdr_def Let_def
    by (auto simp: max_after_empty report_max lines split: option.splits)
qed

lemma max_after_seq:
  assumes "max_after out rs m"
    and "\<And>n1 st1. out = Completed (n1, st1) \<Longrightarrow> max_after (cont n1 st1) rs' (sp_max_count st1)"
  shows "max_after (case out of Aborted a \<Rightarrow> Aborted a | Returned res \<Rightarrow> Returned res
                    | Completed (n1, st1) \<Rightarrow> cont n1 st1)
           (if snd rs then (fst rs @ fst rs', snd rs') else (fst rs, False)) m"
  using assms by (cases out) (auto simp: max_after_def split: outcome.splits)

lemma read_inline_groups_max_after:
  "max_after (read_inline_groups hs infile pu fh ks n st) (groups_line_records infile pu fh ks)
     (sp_max_count st)"
proof (induction ks arbitrary: n st)
  case Nil
  then show ?case by (simp add: max_after_def)
next
  case (Cons k ks)
  have "max_after
      (case read_inline_group hs infile pu fh k n st of
         Aborted a \<Rightarrow> Aborted a | Returned res \<Rightarrow> Returned res
       | Completed (n1, st1) \<Rightarrow> read_inline_groups hs infile pu fh ks n1 st1)
      (if snd (group_line_records infile pu fh k)
       then (fst (group_line_records infile pu fh k) @ fst (groups_line_records infile pu fh ks),
             snd (groups_line_records infile pu fh ks))
       else (fst (group_line_records infile pu fh k), False)) (sp_max_count st)"
    by (rule max_after_seq [OF read_inline_group_max_after]) (rule Cons.IH)
  then show ?case by (simp add: case_prod_beta)
qed

lemma read_inline_function_max:
  "read_inline_function hs infile pu fh n st = Inr (n', st') \<Longrightarrow>
     sp_max_count st' =
       fold max (map freq (fst (groups_line_records infile pu fh [0..<func_num_inline_entries fh])))
         (sp_max_count st)"
  using read_inline_groups_max_after [of hs infile pu fh "[0..<func_num_inline_entries fh]" n st]
  by (auto simp: read_inline_function_def max_after_def split: outcome.splits)

lemma read_lines_upt_max_after:
  "max_after (read_lines pu fh samples [0..<m] n st) (lines_read samples m) (sp_max_count st)"
  using read_lines_max_after [of pu fh samples "[0..<m]" n st]
  by (simp only: lines_read_upt)

lemma read_function_max_after:
  "max_after (read_function hs infile pu i n st) (function_line_records infile pu i)
     (sp_max_count st)"
proof (cases "read_function_header hs infile i pu")
  case (Inl a)
  then show ?thesis by (simp add: read_function_def max_after_def)
next
  case (Inr hdr_opt)
  show ?thesis
  proof (cases hdr_opt)
    case None
    with Inr show ?thesis
      by (auto simp: read_function_def read_function_header_def fread_hdr_def
          function_line_records_def Let_def max_after_def report_max
          split: if_splits option.splits)
  next
    case (Some func_hdr)
    let ?off = "fb_profile_offset (fb_hdr pu) + func_profile_offset func_hdr + func_freq_offset func_hdr"
    let ?pos = "fb_func_hdr_offset (fb_hdr pu) + i * fb_func_hdr_ent_size (fb_hdr pu)"
    let ?rl = "read_lines pu func_hdr (samples_at infile ?off) [0..<func_num_freq_entries func_hdr] n st"
    let ?lr = "lines_read (samples_at infile ?off) (func_num_freq_entries func_hdr)"
    let ?gs = "groups_line_records infile pu func_hdr [0..<func_num_inline_entries func_hdr]"
    from Inr Some have seek: "fseek_ok infile ?pos"
      and rd: "fread_func_hdr infile ?pos (fb_func_hdr_ent_size (fb_hdr pu)) = Some func_hdr"
      by (auto simp: read_function_header_def fread_hdr_def Let_def
          split: if_splits option.splits)
    note hdr = Inr Some
    show ?thesis
    proof (cases "fseek_ok infile ?off")
      case False
      with hdr seek rd show ?thesis
        by (simp add: read_function_def function_line_records_def Let_def max_after_def)
    next
      case True
      have spec: "function_line_records infile pu i
          = (if snd ?lr then (fst ?lr @ fst ?gs, True) else (fst ?lr, False))"
        using seek rd True by (simp add: function_line_records_def Let_def case_prod_beta)
      have flat: "max_after ?rl ?lr (sp_max_count st)"
        by (rule read_lines_upt_max_after)
      show ?thesis
      proof (cases ?rl)
        case (Aborted x)
        with hdr True show ?thesis
          by (simp add: read_function_def Let_def max_after_def)
      next
        case (Returned res)
        with hdr True flat show ?thesis
          by (simp add: read_function_def Let_def max_after_def spec)
      next
        case (Completed res)
        obtain n1 st1 where res: "res = (n1, st1)" by (cases res)
        from flat Completed res have more: "snd ?lr"
          and m1: "sp_max_count st1 = fold max (map freq (fst ?lr)) (sp_max_count st)"
          by (simp_all add: max_after_def)
        show ?thesis
        proof (cases "func_num_inline_entries func_hdr > 0")
          case False
          then have "fst ?gs = []" by simp
          with False hdr True Completed res more m1 show ?thesis
            by (simp add: read_function_def Let_def max_after_def spec)
        next
          case inl: True
          show ?thesis
          proof (cases "read_inline_function hs infile pu func_hdr n1 st1")
            case (Inl x)
            with hdr True Completed res inl show ?thesis
              by (simp add: read_function_def Let_def max_after_def)
          next
            case (Inr r2)
            obtain n2 st2 where r2: "r2 = (n2, st2)" by (cases r2)
            from read_inline_function_max [OF Inr [unfolded r2]] m1
            have "sp_max_count st2 = fold max (map freq (fst ?lr @ fst ?gs)) (sp_max_count st)"
              by simp
            with Inr r2 hdr True Completed res inl more show ?thesis
              by (simp add: read_function_def Let_def max_after_def spec)
          qed
        qed
      qed
    qed
  qed
qed

lemma read_functions_max:
  "final_state (read_functions hs infile pu js n st) = Some (n', st') \<Longrightarrow>
     sp_max_count st' = fold max (map freq (functions_line_records infile pu js)) (sp_max_count st)"
proof (induction js arbitrary: n st)
  case Nil
  then show ?case by simp
next
  case (Cons i js)
  note f = read_function_max_after [of hs infile pu i n st]
  show ?case
  proof (cases "read_function hs infile pu i n st")
    case (Aborted x)
    with Cons.prems show ?thesis by simp
  next
    case (Returned res)
    with Cons.prems f show ?thesis
      by (auto simp: max_after_def case_prod_beta)
  next
    case (Completed res)
    obtain n1 st1 where res: "res = (n1, st1)" by (cases res)
    from Completed res Cons.prems
    have "final_state (read_functions hs infile pu js n1 st1) = Some (n', st')" by simp
    from Cons.IH [OF this] f Completed res show ?thesis
      by (simp add: max_after_def case_prod_beta)
  qed
qed

lemma sp_reader_max:
  assumes "sp_reader hs in_file_opt st = Inr (n', st')"
  shows "sp_max_count st' = fold max (map freq (file_line_records in_file_opt)) (sp_max_count st)"
proof (cases in_file_opt)
  case None
  with assms show ?thesis
    by (auto simp: sp_reader_def file_line_records_def report_max)
next
  case (Some in_file)
  show ?thesis
  proof (cases "fread_fb_hdr in_file")
    case None
    with assms Some show ?thesis
      by (auto simp: sp_reader_def file_line_records_def read_file_header_def report_max)
  next
    case hdr: (Some hdr)
    show ?thesis
    proof (cases "read_string_table in_file hdr")
      case None
      with assms Some hdr show ?thesis
        by (auto simp: sp_reader_def file_line_records_def read_file_header_def
            read_string_table_def report_max split: if_splits)
    next
      case tbl: (Some tbl)
      then have ok: "fseek_ok in_file (fb_str_table_offset hdr)
          \<and> fb_str_table_size hdr \<le> length (bytes_at in_file (fb_str_table_offset hdr))"
        and tbl_eq: "tbl = take (fb_str_table_size hdr) (bytes_at in_file (fb_str_table_offset hdr))"
        by (auto simp: read_string_table_def split: if_splits)
      from assms Some hdr tbl
      have "final_state (read_functions hs in_file \<lparr>fb_hdr = hdr, str_table = tbl\<rparr>
                [0..<fb_func_hdr_num hdr] 0 st) = Some (n', st')"
        by (auto simp: sp_reader_def read_file_header_def split: outcome.splits)
      from read_functions_max [OF this] Some hdr ok tbl_eq show ?thesis
        by (simp add: file_line_records_def)
    qed
  qed
qed

lemma init_sample_profile_max:
  assumes "init_sample_profile hs in_file_opt g = Inr g'" and "\<not> flag_branch_probabilities g"
  shows "sp_max_count (sp_vars g')
    = fold max (map freq (file_line_records in_file_opt)) (sp_max_count (sp_vars g))"
proof -
  let ?st0 = "(sp_vars g)\<lparr>sp_htab := [], sp_inline_htab := []\<rparr>"
  from assms obtain n st where run: "sp_reader hs in_file_opt ?st0 = Inr (n, st)"
    and g': "sp_vars g' = report No_available_data st \<or> sp_vars g' = report (Samples_in_file n) st"
    by (auto simp: init_sample_profile_def split: sum.splits if_splits)
  from sp_reader_max [OF run] g' show ?thesis
    by (auto simp: report_max)
qed

lemma fold_max_Max: "fold max xs (m::'a::linorder) = Max (insert m (set xs))"
  using Max.set_eq_fold [of m xs] by simp

text \<open>
  C9. Whenever \<^verbatim>\<open>sp_reader\<close> returns, \<^verbatim>\<open>sp_max_count\<close> is the greatest of its value before
  the call and the frequencies of all per-line records of the file that the run has
  reached, flat and inline: a record whose key is already stored counts although its
  values are dropped, and the total of an inline group does not count. The same holds across
  \<^verbatim>\<open>init_sample_profile\<close> when it reads the file, and the summary that \<^verbatim>\<open>sp_annotate_cfg\<close>
  publishes afterwards carries that maximum as \<^verbatim>\<open>sum_max\<close>. (\<^verbatim>\<open>sp_max_count\<close> is a static
  variable, so its value before the first call is 0.)
\<close>

theorem max_count_over_line_records:
  "(sp_reader hs in_file_opt st = Inr (n, st') \<longrightarrow>
      sp_max_count st'
        = Max (insert (sp_max_count st) (freq ` set (file_line_records in_file_opt))))
   \<and> (init_sample_profile hs in_file_opt g = Inr g' \<and> \<not> flag_branch_probabilities g \<longrightarrow>
      sp_max_count (sp_vars g')
        = Max (insert (sp_max_count (sp_vars g)) (freq ` set (file_line_records in_file_opt)))
      \<and> (sp_annotate_cfg smooth cx (sp_vars g') fn = Inr fn'
           \<and> profile_info fn' \<noteq> profile_info fn \<longrightarrow>
         profile_info fn'
           = Some \<lparr>runs = 1,
                   sum_max = Max (insert (sp_max_count (sp_vars g))
                                    (freq ` set (file_line_records in_file_opt)))\<rparr>))"
proof (intro conjI impI)
  assume "sp_reader hs in_file_opt st = Inr (n, st')"
  from sp_reader_max [OF this]
  show "sp_max_count st'
      = Max (insert (sp_max_count st) (freq ` set (file_line_records in_file_opt)))"
    by (simp add: fold_max_Max)
next
  assume a: "init_sample_profile hs in_file_opt g = Inr g' \<and> \<not> flag_branch_probabilities g"
  from init_sample_profile_max [OF a [THEN conjunct1] a [THEN conjunct2]]
  show m: "sp_max_count (sp_vars g')
      = Max (insert (sp_max_count (sp_vars g)) (freq ` set (file_line_records in_file_opt)))"
    by (simp add: fold_max_Max)
  assume "sp_annotate_cfg smooth cx (sp_vars g') fn = Inr fn'
      \<and> profile_info fn' \<noteq> profile_info fn"
  then have "profile_info fn' = Some \<lparr>runs = 1, sum_max = sp_max_count (sp_vars g')\<rparr>"
    by (auto simp: sp_annotate_cfg_def split: sum.splits if_splits)
  then show "profile_info fn'
      = Some \<lparr>runs = 1,
              sum_max = Max (insert (sp_max_count (sp_vars g))
                               (freq ` set (file_line_records in_file_opt)))\<rparr>"
    by (simp only: m)
qed

lemmas line_records_defs = file_line_records_def functions_line_records.simps
  function_line_records_def groups_line_records.simps group_line_records_def lines_read_def
  inline_hdr_offset_def Let_def

lemma ex_max_records:
  "file_line_records (Some ex_max_file) = [smp 10 7 1, smp 10 9 2, smp 3 50 1, smp 4 20 1]"
  by (simp add: line_records_defs ex_max_file_def ex_file_def ex_fb_hdr_def ex_func_hdr_def
      ex_inline_hdr_def ex_str_table_def ex_stack_entries_def eval_list)

lemma ex_max_read:
  "sp_reader ex_sizeof_hdr (Some ex_max_file) empty_sp_state = Inr (3, ex_max_state)"
  by (simp add: ex_max_file_def ex_max_state_def ex_group_state_def ex_stack_buf_def
      flat_defs reader_defs ex_defs eval_list)

lemma ex_max_init:
  "init_sample_profile ex_sizeof_hdr (Some ex_max_file) ex_globals
     = Inr (ex_globals\<lparr>sp_num_samples := 3,
                         sp_vars := report (Samples_in_file 3) ex_max_state\<rparr>)"
  unfolding init_sample_profile_def
  by (simp add: ex_globals_def ex_max_read [unfolded empty_sp_state_def] empty_sp_state_def)

lemma ex_max_bb:
  "sp_annotate_bb ex_cx (report (Samples_in_file 3) ex_max_state) ex_bb
     = Inr (ex_bb\<lparr>count := 7\<rparr>)"
  by (simp add: annot_defs ex_annot_defs ex_max_state_def report_def flat_sample_def eval_list)

lemma ex_max_count: "sp_max_count (report (Samples_in_file 3) ex_max_state) = 50"
  by (simp add: report_def ex_max_state_def ex_group_state_def Let_def)

lemma ex_max_run:
  "sp_annotate_cfg (\<lambda>fn. fn) ex_cx (report (Samples_in_file 3) ex_max_state) (ex_fn 3 [ex_bb])
     = Inr ((ex_fn 3 [ex_bb\<lparr>count := 7\<rparr>])
             \<lparr>profile_status := PROFILE_READ,
              profile_info := Some \<lparr>runs = 1, sum_max = 50\<rparr>\<rparr>)"
  by (simp add: sp_annotate_cfg_def ex_max_bb ex_max_count ex_fn_def MIN_SAMPLE_BB_COUNT_def)

theorem max_count_over_line_records_witness:
  "map freq (file_line_records (Some ex_max_file)) = [7, 9, 50, 20]
   \<and> total_samples (ex_inline_hdr 2 2 99) = 99
   \<and> sp_reader ex_sizeof_hdr (Some ex_max_file) empty_sp_state = Inr (3, ex_max_state)
   \<and> map freq (sp_htab ex_max_state) = [7]
   \<and> map freq (sp_inline_htab ex_max_state) = [99, 50, 20]
   \<and> sp_max_count ex_max_state = 50
   \<and> init_sample_profile ex_sizeof_hdr (Some ex_max_file) ex_globals
       = Inr (ex_globals\<lparr>sp_num_samples := 3,
                           sp_vars := report (Samples_in_file 3) ex_max_state\<rparr>)
   \<and> \<not> flag_branch_probabilities ex_globals
   \<and> sp_annotate_cfg (\<lambda>fn. fn) ex_cx (report (Samples_in_file 3) ex_max_state)
         (ex_fn 3 [ex_bb])
       = Inr ((ex_fn 3 [ex_bb\<lparr>count := 7\<rparr>])
               \<lparr>profile_status := PROFILE_READ,
                profile_info := Some \<lparr>runs = 1, sum_max = 50\<rparr>\<rparr>)
   \<and> Max (insert (sp_max_count (sp_vars ex_globals))
              (freq ` set (file_line_records (Some ex_max_file)))) = 50"
proof -
  have recs: "map freq (file_line_records (Some ex_max_file)) = [7, 9, 50, 20]"
    by (simp add: ex_max_records smp_def)
  have tot: "total_samples (ex_inline_hdr 2 2 99) = 99"
    by (simp add: ex_inline_hdr_def)
  have flat: "map freq (sp_htab ex_max_state) = [7]"
    and inl: "map freq (sp_inline_htab ex_max_state) = [99, 50, 20]"
    by (simp_all add: ex_max_state_def ex_group_state_def flat_sample_def inline_sample_def
        callsite_total_def ex_inline_hdr_def smp_def Let_def)
  have m: "Max (insert (sp_max_count empty_sp_state)
                 (freq ` set (file_line_records (Some ex_max_file)))) = 50"
    by (simp add: ex_max_records smp_def empty_sp_state_def)
  from max_count_over_line_records [THEN conjunct1, THEN mp, OF ex_max_read]
  have mx: "sp_max_count ex_max_state = 50"
    by (simp only: m)
  have nb: "\<not> flag_branch_probabilities ex_globals"
    by (simp add: ex_globals_def)
  let ?fn' = "(ex_fn 3 [ex_bb\<lparr>count := 7\<rparr>])
               \<lparr>profile_status := PROFILE_READ,
                profile_info := Some \<lparr>runs = 1, sum_max = 50\<rparr>\<rparr>"
  have ne: "profile_info ?fn' \<noteq> profile_info (ex_fn 3 [ex_bb])"
    by (simp add: ex_fn_def)
  have run: "sp_annotate_cfg (\<lambda>fn. fn) ex_cx
        (sp_vars (ex_globals\<lparr>sp_num_samples := 3,
                              sp_vars := report (Samples_in_file 3) ex_max_state\<rparr>))
        (ex_fn 3 [ex_bb]) = Inr ?fn'"
    using ex_max_run by simp
  note pub = max_count_over_line_records [THEN conjunct2, THEN mp, OF conjI [OF ex_max_init nb],
      THEN conjunct2, THEN mp, OF conjI [OF run ne]]
  then have mg: "Max (insert (sp_max_count (sp_vars ex_globals))
                 (freq ` set (file_line_records (Some ex_max_file)))) = 50"
    by (simp add: ex_fn_def)
  from recs tot ex_max_read flat inl mx ex_max_init nb ex_max_run mg
  show ?thesis by (intro conjI)
qed


subsection \<open>Input errors\<close>

lemma read_lines_Returned:
  "read_lines pu fh samples js n st = Returned (n', st') \<Longrightarrow> n' = 0"
proof (induction js arbitrary: n st)
  case Nil
  then show ?case by simp
next
  case (Cons j js)
  then show ?case
    by (auto split: if_splits sum.splits)
qed

lemma read_function_Returned:
  "read_function hs in_file pu i n st = Returned (n', st') \<Longrightarrow> n' = 0"
  by (auto simp: read_function_def Let_def
      split: sum.splits option.splits if_splits outcome.splits
      dest: read_lines_Returned)

lemma read_functions_Returned:
  "read_functions hs in_file pu js n st = Returned (n', st') \<Longrightarrow> n' = 0"
proof (induction js arbitrary: n st)
  case Nil
  then show ?case by simp
next
  case (Cons i js)
  then show ?case
    by (auto split: outcome.splits dest: read_function_Returned)
qed

lemmas io_defs = flat_defs read_inline_group_def inline_hdr_offset_def
  empty_sp_state_def update_max_count_def report_def c_string_def Let_def

text \<open>
  C3, on the code. A read of \<^verbatim>\<open>sp_reader\<close> itself that fails makes it return 0 (the three
  lemmas above), and \<^verbatim>\<open>init_sample_profile\<close> then clears \<^verbatim>\<open>flag_sample_profile\<close>: so for
  \<open>ex_short_file\<close>, whose second per-line record is missing. A read of
  \<^verbatim>\<open>read_inline_function\<close> that fails makes that function return the samples counted so
  far: for \<open>ex_truncated_file\<close>, which ends before the header of its inline group,
  \<^verbatim>\<open>sp_reader\<close> returns 1, the flag stays set and the table keeps the record read.
\<close>

theorem inline_io_error_keeps_samples:
  "sp_reader ex_sizeof_hdr (Some ex_truncated_file) empty_sp_state = Inr (1, ex_truncated_state)
   \<and> init_sample_profile ex_sizeof_hdr (Some ex_truncated_file) ex_globals
       = Inr (ex_globals\<lparr>sp_num_samples := 1,
                sp_vars := report (Samples_in_file 1) ex_truncated_state\<rparr>)
   \<and> flag_sample_profile
        (ex_globals\<lparr>sp_num_samples := 1,
                sp_vars := report (Samples_in_file 1) ex_truncated_state\<rparr>)
   \<and> length (sp_htab (report (Samples_in_file 1) ex_truncated_state)) = 1
   \<and> sp_reader ex_sizeof_hdr (Some ex_short_file) empty_sp_state = Inr (0, ex_first_state)
   \<and> init_sample_profile ex_sizeof_hdr (Some ex_short_file) ex_globals
       = Inr (ex_globals\<lparr>sp_num_samples := 0,
                sp_vars := report No_available_data ex_first_state,
                flag_sample_profile := False\<rparr>)"
proof -
  have r1: "sp_reader ex_sizeof_hdr (Some ex_truncated_file) empty_sp_state = Inr (1, ex_truncated_state)"
    by (simp add: ex_truncated_file_def ex_truncated_state_def ex_defs io_defs eval_list)
  have r2: "sp_reader ex_sizeof_hdr (Some ex_short_file) empty_sp_state = Inr (0, ex_first_state)"
    by (simp add: ex_short_file_def ex_first_state_def ex_defs io_defs eval_list)
  have g: "(sp_vars ex_globals)\<lparr>sp_htab := [], sp_inline_htab := []\<rparr> = empty_sp_state"
    "\<not> flag_branch_probabilities ex_globals" "flag_sample_profile ex_globals"
    by (simp_all add: ex_globals_def empty_sp_state_def)
  from r1 r2 g show ?thesis
    by (simp add: init_sample_profile_def ex_truncated_state_def report_def)
qed

end
